theory Spec2Isabelle
  imports Main "HOL-Library.List_Lexorder" "HOL-Library.Sublist"
begin

section \<open>Text\<close>

text \<open>
  Python text is a sequence of code points. The model uses \<^typ>\<open>string\<close>, whose
  characters are the 256 code points U+0000..U+00FF; the character classes below are
  Python's (\<^verbatim>\<open>str.isspace\<close>, \<^verbatim>\<open>str.lower\<close>, and the classes
  \<^verbatim>\<open>\s\<close>, \<^verbatim>\<open>\d\<close>, \<^verbatim>\<open>\w\<close> of \<^verbatim>\<open>re\<close>) on that range.
\<close>

definition code :: "char \<Rightarrow> nat" where
  "code c = of_char c"

definition is_space :: "char \<Rightarrow> bool" where
  "is_space c = (let n = code c in
     (9 \<le> n \<and> n \<le> 13) \<or> (28 \<le> n \<and> n \<le> 32) \<or> n = 133 \<or> n = 160)"

definition is_digit :: "char \<Rightarrow> bool" where
  "is_digit c = (let n = code c in 48 \<le> n \<and> n \<le> 57)"

definition is_word :: "char \<Rightarrow> bool" where
  "is_word c = (let n = code c in
     (48 \<le> n \<and> n \<le> 57) \<or> (65 \<le> n \<and> n \<le> 90) \<or> n = 95 \<or> (97 \<le> n \<and> n \<le> 122)
     \<or> n = 170 \<or> n = 178 \<or> n = 179 \<or> n = 181 \<or> n = 185 \<or> n = 186
     \<or> (188 \<le> n \<and> n \<le> 190) \<or> (192 \<le> n \<and> n \<le> 214) \<or> (216 \<le> n \<and> n \<le> 246)
     \<or> 248 \<le> n)"

definition lower_char :: "char \<Rightarrow> char" where
  "lower_char c = (let n = code c in
     if (65 \<le> n \<and> n \<le> 90) \<or> (192 \<le> n \<and> n \<le> 222 \<and> n \<noteq> 215)
     then char_of (n + 32) else c)"

definition lower :: "string \<Rightarrow> string" where
  "lower s = map lower_char s"

definition strip :: "string \<Rightarrow> string" where
  "strip s = rev (dropWhile is_space (rev (dropWhile is_space s)))"

text \<open>\<^verbatim>\<open>a in b\<close> on strings: \<open>a\<close> occurs in \<open>b\<close> as a contiguous block.\<close>

fun is_prefix :: "string \<Rightarrow> string \<Rightarrow> bool" where
  "is_prefix [] ys = True"
| "is_prefix (x # xs) [] = False"
| "is_prefix (x # xs) (y # ys) = (x = y \<and> is_prefix xs ys)"

fun str_in :: "string \<Rightarrow> string \<Rightarrow> bool" where
  "str_in a [] = (a = [])"
| "str_in a (y # ys) = (is_prefix a (y # ys) \<or> str_in a ys)"

text \<open>
  The store compares and orders text columns with SQLite's default collation, which
  compares the encoded bytes; on code points that is the lexicographic order of the
  code sequences.
\<close>

definition str_key :: "string \<Rightarrow> nat list" where
  "str_key s = map code s"

section \<open>Errors\<close>

datatype pyerr =
  ValueError | OverflowError | AttributeError | TypeError | SyntaxError | ZeroDivisionError
  | OtherError

section \<open>Date and time\<close>

text \<open>
  \<^verbatim>\<open>datetime.datetime\<close>, naive (no time zone), as the program uses it. Python only
  builds objects that satisfy \<open>valid_dt\<close>.
\<close>

record datetime =
  dt_year :: nat
  dt_month :: nat
  dt_day :: nat
  dt_hour :: nat
  dt_minute :: nat
  dt_second :: nat
  dt_microsecond :: nat

definition is_leap :: "nat \<Rightarrow> bool" where
  "is_leap y = (y mod 4 = 0 \<and> (y mod 100 \<noteq> 0 \<or> y mod 400 = 0))"

definition days_in_month :: "nat \<Rightarrow> nat \<Rightarrow> nat" where
  "days_in_month y m =
     (if m = 2 then (if is_leap y then 29 else 28)
      else if m = 4 \<or> m = 6 \<or> m = 9 \<or> m = 11 then 30 else 31)"

definition valid_dt :: "datetime \<Rightarrow> bool" where
  "valid_dt d =
     (1 \<le> dt_year d \<and> dt_year d \<le> 9999 \<and> 1 \<le> dt_month d \<and> dt_month d \<le> 12
      \<and> 1 \<le> dt_day d \<and> dt_day d \<le> days_in_month (dt_year d) (dt_month d)
      \<and> dt_hour d \<le> 23 \<and> dt_minute d \<le> 59 \<and> dt_second d \<le> 59
      \<and> dt_microsecond d \<le> 999999)"

text \<open>The comparison of two naive datetimes: field by field, most significant first.\<close>

definition dt_key :: "datetime \<Rightarrow> nat list" where
  "dt_key d = [dt_year d, dt_month d, dt_day d, dt_hour d, dt_minute d, dt_second d,
               dt_microsecond d]"

definition dt_le :: "datetime \<Rightarrow> datetime \<Rightarrow> bool" where
  "dt_le a b = (dt_key a \<le> dt_key b)"

definition dt_less :: "datetime \<Rightarrow> datetime \<Rightarrow> bool" where
  "dt_less a b = (dt_key a < dt_key b)"

text \<open>
  \<^verbatim>\<open>now.replace(hour=h, minute=m, second=0, microsecond=0)\<close>: the constructor
  rejects an hour outside 0..23 and a minute outside 0..59 with ValueError.
\<close>

definition replace_time :: "datetime \<Rightarrow> nat \<Rightarrow> nat \<Rightarrow> pyerr + datetime" where
  "replace_time d h m =
     (if h > 23 then Inl ValueError
      else if m > 59 then Inl ValueError
      else Inr (d\<lparr>dt_hour := h, dt_minute := m, dt_second := 0, dt_microsecond := 0\<rparr>))"

text \<open>
  \<^verbatim>\<open>d + datetime.timedelta(days=1)\<close>: the same time of day on the next calendar
  day; past 9999-12-31 the result is out of range (OverflowError).
\<close>

definition add_one_day :: "datetime \<Rightarrow> pyerr + datetime" where
  "add_one_day d =
     (if dt_day d < days_in_month (dt_year d) (dt_month d)
        then Inr (d\<lparr>dt_day := dt_day d + 1\<rparr>)
      else if dt_month d < 12
        then Inr (d\<lparr>dt_month := dt_month d + 1, dt_day := 1\<rparr>)
      else if dt_year d < 9999
        then Inr (d\<lparr>dt_year := dt_year d + 1, dt_month := 1, dt_day := 1\<rparr>)
      else Inl OverflowError)"

text \<open>The proleptic Gregorian ordinal of a date (\<^verbatim>\<open>date.toordinal\<close>).\<close>

definition days_before_year :: "nat \<Rightarrow> nat" where
  "days_before_year y = (let p = y - 1 in p * 365 + p div 4 - p div 100 + p div 400)"

fun days_before_month :: "nat \<Rightarrow> nat \<Rightarrow> nat" where
  "days_before_month y 0 = 0"
| "days_before_month y (Suc 0) = 0"
| "days_before_month y (Suc m) = days_before_month y m + days_in_month y m"

definition toordinal :: "datetime \<Rightarrow> nat" where
  "toordinal d = days_before_year (dt_year d) + days_before_month (dt_year d) (dt_month d)
                 + dt_day d"

subsection \<open>ISO format\<close>

definition digit_char :: "nat \<Rightarrow> char" where
  "digit_char n = char_of (48 + n)"

fun dec :: "nat \<Rightarrow> string" where
  "dec n = (if n < 10 then [digit_char n] else dec (n div 10) @ [digit_char (n mod 10)])"

declare dec.simps [simp del]

text \<open>\<^verbatim>\<open>"%0wd" % n\<close>: the decimal digits of \<open>n\<close>, padded on the left with zeros.\<close>

definition zpad :: "nat \<Rightarrow> nat \<Rightarrow> string" where
  "zpad w n = replicate (w - length (dec n)) (CHR ''0'') @ dec n"

text \<open>\<^verbatim>\<open>d.isoformat(timespec="seconds")\<close> of a naive datetime.\<close>

definition isoformat :: "datetime \<Rightarrow> string" where
  "isoformat d =
     zpad 4 (dt_year d) @ ''-'' @ zpad 2 (dt_month d) @ ''-'' @ zpad 2 (dt_day d) @ ''T''
     @ zpad 2 (dt_hour d) @ '':'' @ zpad 2 (dt_minute d) @ '':'' @ zpad 2 (dt_second d)"

text \<open>The fixed form \<^verbatim>\<open>YYYY-MM-DDTHH:MM:SS\<close>.\<close>

definition iso_shape :: "string \<Rightarrow> bool" where
  "iso_shape s =
     (length s = 19
      \<and> list_all is_digit (take 4 s) \<and> s ! 4 = CHR ''-''
      \<and> list_all is_digit (take 2 (drop 5 s)) \<and> s ! 7 = CHR ''-''
      \<and> list_all is_digit (take 2 (drop 8 s)) \<and> s ! 10 = CHR ''T''
      \<and> list_all is_digit (take 2 (drop 11 s)) \<and> s ! 13 = CHR '':''
      \<and> list_all is_digit (take 2 (drop 14 s)) \<and> s ! 16 = CHR '':''
      \<and> list_all is_digit (take 2 (drop 17 s)))"

text \<open>Chronological order at the precision of the stored text (whole seconds).\<close>

definition sec_key :: "datetime \<Rightarrow> nat list" where
  "sec_key d = [dt_year d, dt_month d, dt_day d, dt_hour d, dt_minute d, dt_second d]"

section \<open>The store (memory/storage.py)\<close>

text \<open>
  The two SQLite tables as lists of rows in rowid order, with the AUTOINCREMENT
  counters. A query without ORDER BY scans the table in rowid order.
\<close>

record memory_row =
  mem_id :: int
  content :: string
  saved_at :: string

record reminder_row =
  rem_id :: int
  task :: string
  remind_at :: string
  notified :: int

record store =
  memories :: "memory_row list"
  reminders :: "reminder_row list"
  mem_seq :: int
  rem_seq :: int

definition init_db :: store where
  "init_db = \<lparr>memories = [], reminders = [], mem_seq = 0, rem_seq = 0\<rparr>"

text \<open>The rows a SELECT of \<^verbatim>\<open>id, task, remind_at\<close> returns.\<close>

record reminder_view =
  v_id :: int
  v_task :: string
  v_remind_at :: string

definition view :: "reminder_row \<Rightarrow> reminder_view" where
  "view r = \<lparr>v_id = rem_id r, v_task = task r, v_remind_at = remind_at r\<rparr>"

definition save_memory :: "datetime \<Rightarrow> store \<Rightarrow> string \<Rightarrow> store" where
  "save_memory now st c =
     st\<lparr>memories := memories st @
           [\<lparr>mem_id = mem_seq st + 1, content = strip c, saved_at = isoformat now\<rparr>],
        mem_seq := mem_seq st + 1\<rparr>"

text \<open>\<^verbatim>\<open>SELECT content, saved_at FROM memories ORDER BY id DESC\<close>\<close>

definition get_all_memories :: "store \<Rightarrow> (string \<times> string) list" where
  "get_all_memories st = map (\<lambda>m. (content m, saved_at m)) (rev (memories st))"

definition clear_memories :: "store \<Rightarrow> store" where
  "clear_memories st = st\<lparr>memories := []\<rparr>"

definition add_reminder :: "store \<Rightarrow> string \<Rightarrow> datetime \<Rightarrow> store" where
  "add_reminder st t remind_dt =
     (let remind_str = isoformat remind_dt in
      st\<lparr>reminders := reminders st @
            [\<lparr>rem_id = rem_seq st + 1, task = strip t, remind_at = remind_str, notified = 0\<rparr>],
         rem_seq := rem_seq st + 1\<rparr>)"

text \<open>
  \<^verbatim>\<open>SELECT id, task, remind_at FROM reminders WHERE notified=0 ORDER BY remind_at\<close>
\<close>

definition get_pending_reminders :: "store \<Rightarrow> reminder_view list" where
  "get_pending_reminders st =
     map view (sort_key (\<lambda>r. str_key (remind_at r))
       (filter (\<lambda>r. notified r = 0) (reminders st)))"

text \<open>
  \<^verbatim>\<open>SELECT id, task, remind_at FROM reminders WHERE notified=0 AND remind_at <= ?\<close>
  with the current time in ISO format as the parameter. The query has no ORDER BY.
\<close>

definition get_due_reminders :: "datetime \<Rightarrow> store \<Rightarrow> reminder_view list" where
  "get_due_reminders now st =
     (let now_str = isoformat now in
      map view (filter (\<lambda>r. notified r = 0 \<and> str_key (remind_at r) \<le> str_key now_str)
        (reminders st)))"

text \<open>\<^verbatim>\<open>UPDATE reminders SET notified=1 WHERE id=?\<close>\<close>

definition mark_notified :: "store \<Rightarrow> int \<Rightarrow> store" where
  "mark_notified st i =
     st\<lparr>reminders := map (\<lambda>r. if rem_id r = i then r\<lparr>notified := 1\<rparr> else r) (reminders st)\<rparr>"

section \<open>Regular expressions\<close>

text \<open>
  The fragment of Python's \<^verbatim>\<open>re\<close> the program uses, with the matching semantics of a
  backtracking matcher: \<open>run r st\<close> lists the states in which a match of \<open>r\<close> starting
  in state \<open>st\<close> can end, in the order in which the matcher tries them (greedy operators
  try the longer match first, lazy ones the shorter). All patterns of the program are
  compiled with IGNORECASE, so a literal is compared up to letter case.

  A state is the character before the current position (for \<^verbatim>\<open>\b\<close>), the rest of the
  text, and the groups captured so far (most recent first).
\<close>

datatype rx =
    Lit string
  | Cls "char \<Rightarrow> bool"
  | Seq rx rx
  | Alt rx rx
  | Opt rx
  | Star rx
  | LazyStar rx
  | Grp nat rx
  | WordB
  | Eol

type_synonym mstate = "char option \<times> string \<times> (nat \<times> string) list"

definition m_prev :: "mstate \<Rightarrow> char option" where
  "m_prev st = fst st"

definition m_rest :: "mstate \<Rightarrow> string" where
  "m_rest st = fst (snd st)"

definition m_groups :: "mstate \<Rightarrow> (nat \<times> string) list" where
  "m_groups st = snd (snd st)"

text \<open>\<^verbatim>\<open>m.group(k)\<close>: the text of group \<open>k\<close>, or None when it took no part in the match.\<close>

definition group :: "mstate \<Rightarrow> nat \<Rightarrow> string option" where
  "group st k = map_of (m_groups st) k"

fun lit_match :: "string \<Rightarrow> char option \<Rightarrow> string \<Rightarrow> (char option \<times> string) option" where
  "lit_match [] p s = Some (p, s)"
| "lit_match (c # cs) p [] = None"
| "lit_match (c # cs) p (x # xs) =
     (if lower_char x = lower_char c then lit_match cs (Some x) xs else None)"

text \<open>\<^verbatim>\<open>\b\<close>: exactly one of the two neighbouring positions holds a word character.\<close>

definition at_boundary :: "char option \<Rightarrow> string \<Rightarrow> bool" where
  "at_boundary p s =
     ((case p of None \<Rightarrow> False | Some c \<Rightarrow> is_word c)
        \<noteq> (case s of [] \<Rightarrow> False | c # _ \<Rightarrow> is_word c))"

text \<open>
  Repetition. Every further round must consume text, so the length of the rest bounds
  the number of rounds.
\<close>

fun star_run :: "(mstate \<Rightarrow> mstate list) \<Rightarrow> bool \<Rightarrow> nat \<Rightarrow> mstate \<Rightarrow> mstate list" where
  "star_run f greedy 0 st = [st]"
| "star_run f greedy (Suc n) st =
     (let more = concat (map (\<lambda>st'. if length (m_rest st') < length (m_rest st)
                                      then star_run f greedy n st' else []) (f st))
      in if greedy then more @ [st] else st # more)"

primrec run :: "rx \<Rightarrow> mstate \<Rightarrow> mstate list" where
  "run (Lit w) st = (case lit_match w (m_prev st) (m_rest st) of
                       None \<Rightarrow> [] | Some (p, s) \<Rightarrow> [(p, s, m_groups st)])"
| "run (Cls P) st = (case m_rest st of
                       [] \<Rightarrow> []
                     | c # cs \<Rightarrow> if P c then [(Some c, cs, m_groups st)] else [])"
| "run (Seq a b) st = concat (map (run b) (run a st))"
| "run (Alt a b) st = run a st @ run b st"
| "run (Opt a) st = run a st @ [st]"
| "run (Star a) st = star_run (run a) True (length (m_rest st)) st"
| "run (LazyStar a) st = star_run (run a) False (length (m_rest st)) st"
| "run (Grp k a) st =
     map (\<lambda>st'. (m_prev st', m_rest st',
                  (k, take (length (m_rest st) - length (m_rest st')) (m_rest st))
                    # m_groups st'))
       (run a st)"
| "run WordB st = (if at_boundary (m_prev st) (m_rest st) then [st] else [])"
| "run Eol st = (if m_rest st = [] \<or> m_rest st = [CHR 0x0A] then [st] else [])"

text \<open>The first match at the current position.\<close>

definition match_here :: "rx \<Rightarrow> char option \<Rightarrow> string \<Rightarrow> mstate option" where
  "match_here r p s = (case run r (p, s, []) of [] \<Rightarrow> None | m # _ \<Rightarrow> Some m)"

text \<open>\<^verbatim>\<open>pattern.search(s)\<close>: the first match at the leftmost position that has one.\<close>

fun search_from :: "rx \<Rightarrow> char option \<Rightarrow> string \<Rightarrow> mstate option" where
  "search_from r p [] = match_here r p []"
| "search_from r p (c # cs) =
     (case match_here r p (c # cs) of None \<Rightarrow> search_from r (Some c) cs | Some m \<Rightarrow> Some m)"

definition re_search :: "rx \<Rightarrow> string \<Rightarrow> mstate option" where
  "re_search r s = search_from r None s"

text \<open>\<^verbatim>\<open>re.match(r, s)\<close>: a match at the start of the text.\<close>

definition re_match :: "rx \<Rightarrow> string \<Rightarrow> mstate option" where
  "re_match r s = match_here r None s"

text \<open>
  \<^verbatim>\<open>re.sub(r, "", s)\<close>: every match found from left to right is removed, and the scan
  goes on behind it. (A match of no text removes nothing; the scan then moves on by one
  character.)
\<close>

function sub_from :: "rx \<Rightarrow> char option \<Rightarrow> string \<Rightarrow> string" where
  "sub_from r p s =
     (case (case match_here r p s of
              None \<Rightarrow> None
            | Some m \<Rightarrow> if length (m_rest m) < length s then Some m else None) of
        Some m \<Rightarrow> sub_from r (m_prev m) (m_rest m)
      | None \<Rightarrow> (case s of [] \<Rightarrow> [] | c # cs \<Rightarrow> c # sub_from r (Some c) cs))"
  by pat_completeness auto
termination
  by (relation "measure (\<lambda>(r, p, s). length s)") (auto split: option.splits if_splits)

declare sub_from.simps [simp del]

definition re_sub_empty :: "rx \<Rightarrow> string \<Rightarrow> string" where
  "re_sub_empty r s = sub_from r None s"

subsection \<open>Pattern notation\<close>

fun seqs :: "rx list \<Rightarrow> rx" where
  "seqs [] = Lit []"
| "seqs [r] = r"
| "seqs (r # rs) = Seq r (seqs rs)"

text \<open>\<^verbatim>\<open>(w1|w2|...)\<close>, the alternatives in the order written.\<close>

fun words :: "string list \<Rightarrow> rx" where
  "words [] = Cls (\<lambda>c. False)"
| "words [w] = Lit w"
| "words (w # ws) = Alt (Lit w) (words ws)"

definition plus :: "rx \<Rightarrow> rx" where
  "plus r = Seq r (Star r)"

definition lazy_plus :: "rx \<Rightarrow> rx" where
  "lazy_plus r = Seq r (LazyStar r)"

text \<open>\<^verbatim>\<open>\s\<close>, \<^verbatim>\<open>\d\<close> and \<^verbatim>\<open>.\<close> (any character but a newline).\<close>

definition sp :: rx where
  "sp = Cls is_space"

definition dg :: rx where
  "dg = Cls is_digit"

definition dot :: rx where
  "dot = Cls (\<lambda>c. c \<noteq> CHR 0x0A)"

text \<open>\<^verbatim>\<open>\b(w1|w2|...)\b\<close>\<close>

definition word_of :: "string list \<Rightarrow> rx" where
  "word_of ws = seqs [WordB, words ws, WordB]"

section \<open>Configuration (config.py)\<close>

definition bs :: string where
  "bs = [CHR 0x5C]"

definition USER_NAME :: string where
  "USER_NAME = ''Rihan''"

definition APP_COMMANDS :: "(string \<times> string) list" where
  "APP_COMMANDS =
    [(''chrome'', ''C:'' @ bs @ ''Program Files'' @ bs @ ''Google'' @ bs @ ''Chrome'' @ bs @ ''Application'' @ bs @ ''chrome.exe''),
     (''google chrome'', ''C:'' @ bs @ ''Program Files'' @ bs @ ''Google'' @ bs @ ''Chrome'' @ bs @ ''Application'' @ bs @ ''chrome.exe''),
     (''firefox'', ''C:'' @ bs @ ''Program Files'' @ bs @ ''Mozilla Firefox'' @ bs @ ''firefox.exe''),
     (''notepad'', ''notepad.exe''),
     (''calculator'', ''calc.exe''),
     (''vs code'', ''C:'' @ bs @ ''Users'' @ bs @ ''%USERNAME%'' @ bs @ ''AppData'' @ bs @ ''Local'' @ bs @ ''Programs'' @ bs @ ''Microsoft VS Code'' @ bs @ ''Code.exe''),
     (''vscode'', ''C:'' @ bs @ ''Users'' @ bs @ ''%USERNAME%'' @ bs @ ''AppData'' @ bs @ ''Local'' @ bs @ ''Programs'' @ bs @ ''Microsoft VS Code'' @ bs @ ''Code.exe''),
     (''visual studio code'', ''C:'' @ bs @ ''Users'' @ bs @ ''%USERNAME%'' @ bs @ ''AppData'' @ bs @ ''Local'' @ bs @ ''Programs'' @ bs @ ''Microsoft VS Code'' @ bs @ ''Code.exe''),
     (''file explorer'', ''explorer.exe''),
     (''task manager'', ''taskmgr.exe''),
     (''settings'', ''ms-settings:''),
     (''paint'', ''mspaint.exe''),
     (''cmd'', ''cmd.exe''),
     (''command prompt'', ''cmd.exe''),
     (''powershell'', ''powershell.exe''),
     (''spotify'', ''C:'' @ bs @ ''Users'' @ bs @ ''%USERNAME%'' @ bs @ ''AppData'' @ bs @ ''Roaming'' @ bs @ ''Spotify'' @ bs @ ''Spotify.exe''),
     (''word'', ''C:'' @ bs @ ''Program Files'' @ bs @ ''Microsoft Office'' @ bs @ ''root'' @ bs @ ''Office16'' @ bs @ ''WINWORD.EXE''),
     (''excel'', ''C:'' @ bs @ ''Program Files'' @ bs @ ''Microsoft Office'' @ bs @ ''root'' @ bs @ ''Office16'' @ bs @ ''EXCEL.EXE''),
     (''vlc'', ''C:'' @ bs @ ''Program Files'' @ bs @ ''VideoLAN'' @ bs @ ''VLC'' @ bs @ ''vlc.exe'')]"

definition FOLDER_COMMANDS :: "(string \<times> string) list" where
  "FOLDER_COMMANDS =
    [(''downloads'', ''%USERPROFILE%'' @ bs @ ''Downloads''),
     (''documents'', ''%USERPROFILE%'' @ bs @ ''Documents''),
     (''desktop'', ''%USERPROFILE%'' @ bs @ ''Desktop''),
     (''pictures'', ''%USERPROFILE%'' @ bs @ ''Pictures''),
     (''music'', ''%USERPROFILE%'' @ bs @ ''Music''),
     (''videos'', ''%USERPROFILE%'' @ bs @ ''Videos'')]"

definition PROCESS_NAMES :: "(string \<times> string) list" where
  "PROCESS_NAMES =
    [(''chrome'', ''chrome.exe''),
     (''google chrome'', ''chrome.exe''),
     (''firefox'', ''firefox.exe''),
     (''notepad'', ''notepad.exe''),
     (''calculator'', ''Calculator.exe''),
     (''vs code'', ''Code.exe''),
     (''vscode'', ''Code.exe''),
     (''spotify'', ''Spotify.exe''),
     (''vlc'', ''vlc.exe''),
     (''word'', ''WINWORD.EXE''),
     (''excel'', ''EXCEL.EXE'')]"

section \<open>The environment\<close>

text \<open>
  What a call of the program reads from outside: the clock, the random generator,
  library functions that are not modelled in detail, the operating system and the two
  web searches. An operating-system call either returns a code or raises; the web
  searches catch every exception themselves and return a text or None.
\<close>

datatype os_error = FileNotFoundError string | OSException string

definition err_text :: "os_error \<Rightarrow> string" where
  "err_text e = (case e of FileNotFoundError m \<Rightarrow> m | OSException m \<Rightarrow> m)"

record env =
  clock :: datetime
  rand_index :: nat
  lib_strftime :: "string \<Rightarrow> datetime \<Rightarrow> string"
  lib_fromisoformat :: "string \<Rightarrow> pyerr + datetime"
  lib_eval_text :: "string \<Rightarrow> pyerr + string"
  os_expandvars :: "string \<Rightarrow> string"
  os_path_join :: "string \<Rightarrow> string \<Rightarrow> string"
  os_startfile :: "string \<Rightarrow> os_error + int"
  os_popen :: "string \<Rightarrow> os_error + int"
  os_run :: "string list \<Rightarrow> os_error + int"
  search_wikipedia :: "string \<Rightarrow> string option"
  search_duckduckgo :: "string \<Rightarrow> string option"

text \<open>Python's truth value of a text-or-None.\<close>

definition truthy :: "string option \<Rightarrow> bool" where
  "truthy r = (case r of None \<Rightarrow> False | Some x \<Rightarrow> x \<noteq> [])"

definition apos :: string where
  "apos = [CHR 0x27]"

definition quoted :: "string \<Rightarrow> string" where
  "quoted x = apos @ x @ apos"

text \<open>
  Three symbols of the program's fixed messages lie outside the modelled character
  range; they are written as their UTF-8 bytes: the em dash U+2014, the bullet U+2022
  and the alarm clock U+23F0.
\<close>

definition em_dash :: string where
  "em_dash = [CHR 0xE2, CHR 0x80, CHR 0x94]"

definition bullet :: string where
  "bullet = [CHR 0xE2, CHR 0x80, CHR 0xA2]"

definition alarm_clock :: string where
  "alarm_clock = [CHR 0xE2, CHR 0x8F, CHR 0xB0]"

section \<open>Applications and folders (windows_control/apps.py)\<close>

definition open_app :: "env \<Rightarrow> string \<Rightarrow> string" where
  "open_app e app_name =
     (let app_name_lower = lower app_name in
      case map_of APP_COMMANDS app_name_lower of
        None \<Rightarrow> ''I don't have a shortcut for '' @ quoted app_name @ ''. You can add it to config.py.''
      | Some path0 \<Rightarrow>
          if path0 = [] then
            ''I don't have a shortcut for '' @ quoted app_name @ ''. You can add it to config.py.''
          else
            let path = os_expandvars e path0 in
            (case (if is_prefix ''ms-'' path then os_startfile e path else os_popen e path) of
               Inr _ \<Rightarrow> ''Opening '' @ app_name @ ''.''
             | Inl (FileNotFoundError _) \<Rightarrow>
                 ''Couldn't find '' @ quoted app_name @ ''. Check the path in config.py: '' @ path
             | Inl (OSException m) \<Rightarrow> ''Failed to open '' @ app_name @ '': '' @ m))"

definition close_app :: "env \<Rightarrow> string \<Rightarrow> string" where
  "close_app e app_name =
     (let app_name_lower = lower app_name in
      case map_of PROCESS_NAMES app_name_lower of
        None \<Rightarrow> ''I don't know the process name for '' @ quoted app_name @ ''. Add it to config.py.''
      | Some process \<Rightarrow>
          if process = [] then
            ''I don't know the process name for '' @ quoted app_name @ ''. Add it to config.py.''
          else
            (case os_run e [''taskkill'', ''/F'', ''/IM'', process, ''/T''] of
               Inr returncode \<Rightarrow>
                 if returncode = 0 then ''Closed '' @ app_name @ ''.''
                 else app_name @ '' doesn't seem to be running.''
             | Inl x \<Rightarrow> ''Couldn't close '' @ app_name @ '': '' @ err_text x))"

definition open_folder :: "env \<Rightarrow> string \<Rightarrow> string" where
  "open_folder e folder_name =
     (let folder_name_lower = lower folder_name in
      case map_of FOLDER_COMMANDS folder_name_lower of
        None \<Rightarrow> ''I don't have a shortcut for the '' @ quoted folder_name @ '' folder.''
      | Some path0 \<Rightarrow>
          if path0 = [] then
            ''I don't have a shortcut for the '' @ quoted folder_name @ '' folder.''
          else
            let path = os_expandvars e path0 in
            (case os_startfile e path of
               Inr _ \<Rightarrow> ''Opening your '' @ folder_name @ '' folder.''
             | Inl x \<Rightarrow> ''Couldn't open '' @ folder_name @ '': '' @ err_text x))"

definition lock_screen :: "env \<Rightarrow> string" where
  "lock_screen e =
     (case os_run e [''rundll32.exe'', ''user32.dll,LockWorkStation''] of
        Inr _ \<Rightarrow> ''Screen locked.''
      | Inl x \<Rightarrow> ''Couldn't lock screen: '' @ err_text x)"

definition shutdown_pc :: "env \<Rightarrow> string" where
  "shutdown_pc e =
     (case os_run e [''shutdown'', ''/s'', ''/t'', ''10''] of
        Inr _ \<Rightarrow> ''PC will shut down in 10 seconds. Say 'cancel shutdown' to abort.''
      | Inl x \<Rightarrow> ''Couldn't initiate shutdown: '' @ err_text x)"

definition restart_pc :: "env \<Rightarrow> string" where
  "restart_pc e =
     (case os_run e [''shutdown'', ''/r'', ''/t'', ''10''] of
        Inr _ \<Rightarrow> ''PC will restart in 10 seconds.''
      | Inl x \<Rightarrow> ''Couldn't initiate restart: '' @ err_text x)"

definition sleep_pc :: "env \<Rightarrow> string" where
  "sleep_pc e =
     (case os_run e [''rundll32.exe'', ''powrprof.dll,SetSuspendState'', ''0,1,0''] of
        Inr _ \<Rightarrow> ''Putting the PC to sleep.''
      | Inl x \<Rightarrow> ''Couldn't sleep: '' @ err_text x)"

definition take_screenshot :: "env \<Rightarrow> string" where
  "take_screenshot e =
     (let desktop = os_expandvars e (''%USERPROFILE%'' @ bs @ ''Desktop'');
          filename = ''screenshot_'' @ lib_strftime e ''%Y%m%d_%H%M%S'' (clock e) @ ''.png'';
          filepath = os_path_join e desktop filename;
          ps_cmd = ''Add-Type -AssemblyName System.Windows.Forms; ''
            @ ''$s=[System.Windows.Forms.Screen]::PrimaryScreen.Bounds; ''
            @ ''$b=New-Object System.Drawing.Bitmap($s.Width,$s.Height); ''
            @ ''$g=[System.Drawing.Graphics]::FromImage($b); ''
            @ ''$g.CopyFromScreen($s.Location,[System.Drawing.Point]::Empty,$s.Size); ''
            @ ''$b.Save('' @ quoted filepath @ ''); $g.Dispose(); $b.Dispose()''
      in case os_run e [''powershell'', ''-Command'', ps_cmd] of
           Inr _ \<Rightarrow> ''Screenshot saved to Desktop as '' @ filename @ ''.''
         | Inl x \<Rightarrow> ''Screenshot failed: '' @ err_text x)"

definition volume_change :: "env \<Rightarrow> string \<Rightarrow> string" where
  "volume_change e direction =
     (let script =
            (if direction = ''up''
               then ''(1..5) | % { (New-Object -com WScript.Shell).SendKeys([char]175) }''
             else if direction = ''down''
               then ''(1..5) | % { (New-Object -com WScript.Shell).SendKeys([char]174) }''
             else ''(New-Object -com WScript.Shell).SendKeys([char]173)'')
      in case os_run e [''powershell'', ''-Command'', script] of
           Inr _ \<Rightarrow>
             (if direction = ''up'' then ''Volume increased.''
              else if direction = ''down'' then ''Volume decreased.''
              else ''Audio muted / unmuted.'')
         | Inl x \<Rightarrow> ''Volume control failed: '' @ err_text x)"

section \<open>Knowledge lookup (brain/knowledge.py)\<close>

text \<open>\<^verbatim>\<open>a or b\<close> on text-or-None values.\<close>

definition py_or :: "string option \<Rightarrow> string option \<Rightarrow> string option" where
  "py_or a b = (if truthy a then a else b)"

definition find_answer :: "env \<Rightarrow> string \<Rightarrow> bool \<Rightarrow> string" where
  "find_answer e query prefer_wikipedia =
     (let answer =
            (if prefer_wikipedia
               then py_or (search_wikipedia e query) (search_duckduckgo e query)
             else py_or (search_duckduckgo e query) (search_wikipedia e query))
      in case answer of
           Some a \<Rightarrow> if a \<noteq> [] then a
                     else ''I couldn't find a reliable answer for that. Try asking me something else!''
         | None \<Rightarrow> ''I couldn't find a reliable answer for that. Try asking me something else!'')"

section \<open>Python expressions\<close>

text \<open>\<^verbatim>\<open>int(s)\<close> on a text of decimal digits.\<close>

definition int_of_digits :: "string \<Rightarrow> nat" where
  "int_of_digits s = foldl (\<lambda>n c. 10 * n + (code c - 48)) 0 s"

text \<open>
  The result of evaluating an expression: a value, an exception, or \<open>Unknown\<close> for an
  expression outside the part of Python that is modelled here.
\<close>

datatype 'a res = Ok 'a | Err | Unknown

text \<open>Tokens and syntax trees of the expressions.\<close>

datatype tok = TInt nat | TPlus | TMinus | TStar | TPow | TLPar | TRPar

datatype ast =
    NumE nat | TupE | PosE ast | NegE ast | AddE ast ast | SubE ast ast | MulE ast ast | PowE ast ast
  | CallE ast "ast option"

text \<open>The values: an integer or the empty tuple.\<close>

datatype pyval = IntV int | TupleV

text \<open>
  The modelled expressions are written with decimal digits, blanks, \<^verbatim>\<open>+ - * ( )\<close> and
  have at most 100 characters.
\<close>

definition frag_char :: "char \<Rightarrow> bool" where
  "frag_char c = (is_digit c \<or> c \<in> set '' +-*()'')"

definition in_fragment :: "string \<Rightarrow> bool" where
  "in_fragment s = (length s \<le> 100 \<and> list_all frag_char s)"

text \<open>
  The tokenizer. A decimal literal is a maximal run of digits; one with a leading zero
  that is not all zeros is a syntax error. \<open>tokens ds s\<close> reads \<open>s\<close> with the digits
  \<open>ds\<close> of a literal already read.
\<close>

definition valid_literal :: "string \<Rightarrow> bool" where
  "valid_literal ds = (list_all (\<lambda>c. c = CHR ''0'') ds \<or> hd ds \<noteq> CHR ''0'')"

definition flush :: "string \<Rightarrow> tok list option \<Rightarrow> tok list option" where
  "flush ds rest =
     (if ds = [] then rest
      else if valid_literal ds then map_option (\<lambda>ts. TInt (int_of_digits ds) # ts) rest
      else None)"

fun tokens :: "string \<Rightarrow> string \<Rightarrow> tok list option" where
  "tokens ds [] = flush ds (Some [])"
| "tokens ds (c # cs) =
     (if is_digit c then tokens (ds @ [c]) cs
      else flush ds
        (if c = CHR '' '' then tokens [] cs
         else if c = CHR ''+'' then map_option (\<lambda>ts. TPlus # ts) (tokens [] cs)
         else if c = CHR ''-'' then map_option (\<lambda>ts. TMinus # ts) (tokens [] cs)
         else if c = CHR ''('' then map_option (\<lambda>ts. TLPar # ts) (tokens [] cs)
         else if c = CHR '')'' then map_option (\<lambda>ts. TRPar # ts) (tokens [] cs)
         else if c = CHR ''*'' then
           (case cs of
              [] \<Rightarrow> Some [TStar]
            | c' # cs' \<Rightarrow>
                if c' = CHR ''*'' then map_option (\<lambda>ts. TPow # ts) (tokens [] cs')
                else map_option (\<lambda>ts. TStar # ts) (tokens [] cs))
         else None))"

text \<open>
  The parser, for the grammar
  \<^verbatim>\<open>sum: term (('+'|'-') term)*\<close>,
  \<^verbatim>\<open>term: factor ('*' factor)*\<close>,
  \<^verbatim>\<open>factor: ('+'|'-') factor | power\<close>,
  \<^verbatim>\<open>power: primary ['**' factor]\<close>,
  \<^verbatim>\<open>primary: atom ('(' [['*'|'**'] sum] ')')*\<close>,
  \<^verbatim>\<open>atom: INT | '(' ')' | '(' sum ')'\<close>.
  The first argument bounds the depth of the calls; when it is used up the result is
  \<open>Unknown\<close>.
\<close>

definition hd_is :: "tok \<Rightarrow> tok list \<Rightarrow> bool" where
  "hd_is t ts = (case ts of [] \<Rightarrow> False | x # _ \<Rightarrow> x = t)"

text \<open>A parser result applied to a continuation.\<close>

type_synonym parsed = "(ast \<times> tok list) res"

definition and_then :: "parsed \<Rightarrow> (ast \<Rightarrow> tok list \<Rightarrow> parsed) \<Rightarrow> parsed" where
  "and_then x f = (case x of Ok (a, r) \<Rightarrow> f a r | Err \<Rightarrow> Err | Unknown \<Rightarrow> Unknown)"

datatype nt =
    NSum | NSumRest ast | NTerm | NTermRest ast | NFactor | NPower | NPrimary | NTrailers ast
  | NAtom

fun parse :: "nat \<Rightarrow> nt \<Rightarrow> tok list \<Rightarrow> (ast \<times> tok list) res" where
  "parse 0 k ts = Unknown"
| "parse (Suc n) NSum ts = and_then (parse n NTerm ts) (\<lambda>a r. parse n (NSumRest a) r)"
| "parse (Suc n) (NSumRest a) ts =
     (if hd_is TPlus ts then
        and_then (parse n NTerm (tl ts)) (\<lambda>b r. parse n (NSumRest (AddE a b)) r)
      else if hd_is TMinus ts then
        and_then (parse n NTerm (tl ts)) (\<lambda>b r. parse n (NSumRest (SubE a b)) r)
      else Ok (a, ts))"
| "parse (Suc n) NTerm ts = and_then (parse n NFactor ts) (\<lambda>a r. parse n (NTermRest a) r)"
| "parse (Suc n) (NTermRest a) ts =
     (if hd_is TStar ts then
        and_then (parse n NFactor (tl ts)) (\<lambda>b r. parse n (NTermRest (MulE a b)) r)
      else Ok (a, ts))"
| "parse (Suc n) NFactor ts =
     (if hd_is TPlus ts then and_then (parse n NFactor (tl ts)) (\<lambda>a r. Ok (PosE a, r))
      else if hd_is TMinus ts then and_then (parse n NFactor (tl ts)) (\<lambda>a r. Ok (NegE a, r))
      else parse n NPower ts)"
| "parse (Suc n) NPower ts =
     and_then (parse n NPrimary ts)
       (\<lambda>a r. if hd_is TPow r then and_then (parse n NFactor (tl r)) (\<lambda>b r'. Ok (PowE a b, r'))
               else Ok (a, r))"
| "parse (Suc n) NPrimary ts = and_then (parse n NAtom ts) (\<lambda>a r. parse n (NTrailers a) r)"
| "parse (Suc n) (NTrailers a) ts =
     (if hd_is TLPar ts then
        (if hd_is TRPar (tl ts) then parse n (NTrailers (CallE a None)) (tl (tl ts))
         else
           and_then
             (parse n NSum
                (if hd_is TStar (tl ts) \<or> hd_is TPow (tl ts) then tl (tl ts) else tl ts))
             (\<lambda>b r. if hd_is TRPar r then parse n (NTrailers (CallE a (Some b))) (tl r) else Err))
      else Ok (a, ts))"
| "parse (Suc n) NAtom ts =
     (case ts of
        [] \<Rightarrow> Err
      | t # r \<Rightarrow>
         (case t of
            TInt k \<Rightarrow> Ok (NumE k, r)
          | TLPar \<Rightarrow>
              (if hd_is TRPar r then Ok (TupE, tl r)
               else and_then (parse n NSum r) (\<lambda>a r'. if hd_is TRPar r' then Ok (a, tl r') else Err))
          | _ \<Rightarrow> Err))"

definition parse_expression :: "tok list \<Rightarrow> ast res" where
  "parse_expression ts =
     (case parse (8 * (length ts + 1)) NSum ts of
        Ok (a, r) \<Rightarrow> if r = [] then Ok a else Err
      | Err \<Rightarrow> Err
      | Unknown \<Rightarrow> Unknown)"


text \<open>
  Evaluation, left to right. Integers are exact; a result of more than 4300 digits, a
  negative exponent (a float or a division by zero) and a tuple repeated more than
  \<open>2^31\<close> times are left \<open>Unknown\<close>. The empty tuple can be added to itself and
  repeated; every other operation on it, and every call, raises TypeError.
\<close>

definition digits :: "int \<Rightarrow> nat" where
  "digits n = length (dec (nat \<bar>n\<bar>))"

definition small :: "int \<Rightarrow> pyval res" where
  "small n = (if digits n \<le> 4300 then Ok (IntV n) else Unknown)"

fun eval_ast :: "ast \<Rightarrow> pyval res" where
  "eval_ast (NumE k) = small (int k)"
| "eval_ast TupE = Ok TupleV"
| "eval_ast (PosE a) =
     (case eval_ast a of Ok (IntV n) \<Rightarrow> small n | Ok TupleV \<Rightarrow> Err | Err \<Rightarrow> Err
      | Unknown \<Rightarrow> Unknown)"
| "eval_ast (NegE a) =
     (case eval_ast a of Ok (IntV n) \<Rightarrow> small (- n) | Ok TupleV \<Rightarrow> Err | Err \<Rightarrow> Err
      | Unknown \<Rightarrow> Unknown)"
| "eval_ast (AddE a b) =
     (case eval_ast a of
        Ok x \<Rightarrow>
          (case eval_ast b of
             Ok y \<Rightarrow>
               (case (x, y) of
                  (IntV m, IntV n) \<Rightarrow> small (m + n)
                | (TupleV, TupleV) \<Rightarrow> Ok TupleV
                | _ \<Rightarrow> Err)
           | Err \<Rightarrow> Err
           | Unknown \<Rightarrow> Unknown)
      | Err \<Rightarrow> Err
      | Unknown \<Rightarrow> Unknown)"
| "eval_ast (SubE a b) =
     (case eval_ast a of
        Ok x \<Rightarrow>
          (case eval_ast b of
             Ok y \<Rightarrow> (case (x, y) of (IntV m, IntV n) \<Rightarrow> small (m - n) | _ \<Rightarrow> Err)
           | Err \<Rightarrow> Err
           | Unknown \<Rightarrow> Unknown)
      | Err \<Rightarrow> Err
      | Unknown \<Rightarrow> Unknown)"
| "eval_ast (MulE a b) =
     (case eval_ast a of
        Ok x \<Rightarrow>
          (case eval_ast b of
             Ok y \<Rightarrow>
               (case (x, y) of
                  (IntV m, IntV n) \<Rightarrow> small (m * n)
                | (TupleV, IntV n) \<Rightarrow> if \<bar>n\<bar> < 2147483648 then Ok TupleV else Unknown
                | (IntV m, TupleV) \<Rightarrow> if \<bar>m\<bar> < 2147483648 then Ok TupleV else Unknown
                | (TupleV, TupleV) \<Rightarrow> Err)
           | Err \<Rightarrow> Err
           | Unknown \<Rightarrow> Unknown)
      | Err \<Rightarrow> Err
      | Unknown \<Rightarrow> Unknown)"
| "eval_ast (PowE a b) =
     (case eval_ast a of
        Ok x \<Rightarrow>
          (case eval_ast b of
             Ok y \<Rightarrow>
               (case (x, y) of
                  (IntV m, IntV n) \<Rightarrow> if 0 \<le> n then small (m ^ nat n) else Unknown
                | _ \<Rightarrow> Err)
           | Err \<Rightarrow> Err
           | Unknown \<Rightarrow> Unknown)
      | Err \<Rightarrow> Err
      | Unknown \<Rightarrow> Unknown)"
| "eval_ast (CallE f arg) =
     (case eval_ast f of
        Ok x \<Rightarrow>
          (case arg of
             None \<Rightarrow> Err
           | Some a \<Rightarrow> (case eval_ast a of Unknown \<Rightarrow> Unknown | _ \<Rightarrow> Err))
      | Err \<Rightarrow> Err
      | Unknown \<Rightarrow> Unknown)"

text \<open>
  \<^verbatim>\<open>eval(expr, {"__builtins__": {}, "math": math})\<close> on the modelled expressions.
\<close>

definition py_eval :: "string \<Rightarrow> pyval res" where
  "py_eval expr =
     (if \<not> in_fragment expr then Unknown
      else case tokens [] expr of
             None \<Rightarrow> Err
           | Some ts \<Rightarrow>
              (case parse_expression ts of
                 Ok a \<Rightarrow> eval_ast a
               | Err \<Rightarrow> Err
               | Unknown \<Rightarrow> Unknown))"

text \<open>\<^verbatim>\<open>str(v)\<close>, as the f-string formats the value.\<close>

definition py_str :: "pyval \<Rightarrow> string" where
  "py_str v =
     (case v of
        IntV n \<Rightarrow> if n < 0 then ''-'' @ dec (nat (- n)) else dec (nat n)
      | TupleV \<Rightarrow> ''()'')"

section \<open>The processor (brain/processor.py)\<close>

definition JOKES :: "string list" where
  "JOKES =
    [''Why do programmers prefer dark mode? Because light attracts bugs!'',
     ''I would tell you a UDP joke, but you might not get it.'',
     ''A SQL query walks into a bar, walks up to two tables and asks: Can I join you?'',
     ''Why did the computer go to the doctor? It had a virus!'',
     ''To understand recursion, you must first understand recursion.'',
     ''There are only 10 kinds of people: those who understand binary, and those who don't.'']"

subsection \<open>The intent detectors\<close>

text \<open>
  The entries of \<^verbatim>\<open>_RE\<close> that \<^verbatim>\<open>process\<close> consults, each only for whether it
  matches somewhere in the text, so their groups are written without a number.
\<close>

definition re_greeting :: rx where
  "re_greeting =
     Alt (word_of [''hi'', ''hello'', ''hey'', ''yo'', ''what's up'', ''sup'', ''howdy'', ''hiya''])
         (word_of [''good morning'', ''good afternoon'', ''good evening'', ''good night''])"

definition re_farewell :: rx where
  "re_farewell =
     word_of [''bye'', ''goodbye'', ''exit'', ''quit'', ''see you'', ''later'', ''cya'',
              ''peace out'', ''shut down'']"

definition re_how_are_you :: rx where
  "re_how_are_you =
     word_of [''how are you'', ''how're you'', ''how do you feel'', ''are you okay'', ''you good'']"

definition re_time :: rx where
  "re_time = word_of [''what time'', ''current time'', ''what's the time'', ''tell me the time'']"

definition re_date :: rx where
  "re_date =
     seqs [WordB,
           Alt (seqs [Lit ''what'', words [apos @ ''s'', '' is''], Lit '' '',
                      words [''today'', ''the date'']])
               (words [''today's date'', ''current date'']),
           WordB]"

definition re_day :: rx where
  "re_day = word_of [''what day'', ''which day'']"

definition re_open_app :: rx where
  "re_open_app = word_of [''open'', ''launch'', ''start'', ''run'']"

definition re_close_app :: rx where
  "re_close_app = word_of [''close'', ''kill'', ''stop'', ''quit'', ''exit'']"

definition re_open_folder :: rx where
  "re_open_folder =
     seqs [WordB, words [''open'', ''show'', ''go to''], WordB, Star dot,
           words [''folder'', ''directory'', ''downloads'', ''documents'', ''desktop'',
                  ''pictures'', ''music'', ''videos''],
           WordB]"

definition re_remind :: rx where
  "re_remind = seqs [WordB, Lit ''remind'', plus sp, Lit ''me'', WordB]"

definition re_remember :: rx where
  "re_remember =
     seqs [WordB, Lit ''remember'', plus sp, Opt (Seq (Lit ''that'') (plus sp)), Star dot]"

definition re_recall :: rx where
  "re_recall = word_of [''what do you remember'', ''recall'', ''show memories'', ''my notes'']"

definition re_joke :: rx where
  "re_joke = word_of [''joke'', ''make me laugh'', ''something funny'', ''tell me a joke'']"

definition re_what_is :: rx where
  "re_what_is =
     word_of [''what is'', ''what are'', ''who is'', ''who was'', ''tell me about'', ''explain'',
              ''define'', ''describe'']"

definition re_search_intent :: rx where
  "re_search_intent = word_of [''search for'', ''look up'', ''find'', ''google'', ''search'']"

definition re_weather :: rx where
  "re_weather = word_of [''weather'', ''temperature'', ''forecast'', ''rain'', ''sunny'']"

definition re_news :: rx where
  "re_news = word_of [''news'', ''latest'', ''today's news'', ''headlines'']"

definition re_volume_up :: rx where
  "re_volume_up = word_of [''volume up'', ''louder'', ''increase volume'']"

definition re_volume_down :: rx where
  "re_volume_down =
     word_of [''volume down'', ''quieter'', ''lower volume'', ''decrease volume'']"

definition re_mute :: rx where
  "re_mute = word_of [''mute'', ''silence'']"

definition re_screenshot :: rx where
  "re_screenshot = word_of [''screenshot'', ''screen capture'', ''capture screen'']"

definition re_lock :: rx where
  "re_lock =
     seqs [WordB,
           Alt (seqs [Lit ''lock '', Opt (Lit ''the ''), Lit ''screen''])
               (words [''lock pc'', ''lock computer'']),
           WordB]"

definition re_shutdown :: rx where
  "re_shutdown =
     seqs [WordB,
           Alt (words [''shutdown'', ''shut down'', ''power off''])
               (seqs [Lit ''turn off '', Opt (Lit ''the ''), Lit ''pc'']),
           WordB]"

definition re_restart :: rx where
  "re_restart = word_of [''restart'', ''reboot'']"

definition re_sleep_pc :: rx where
  "re_sleep_pc =
     seqs [WordB, words [''sleep'', ''hibernate'', ''put to sleep''], WordB, Star dot,
           Opt (words [''pc'', ''computer'', ''system'']), WordB]"

definition re_list_reminders :: rx where
  "re_list_reminders =
     word_of [''list reminders'', ''show reminders'', ''my reminders'', ''pending reminders'']"

definition re_clear_memory :: rx where
  "re_clear_memory = word_of [''clear memory'', ''forget everything'', ''delete memories'']"

text \<open>\<^verbatim>\<open>pattern.search(t)\<close> used as a condition.\<close>

definition found :: "rx \<Rightarrow> string \<Rightarrow> bool" where
  "found r t = (re_search r t \<noteq> None)"

subsection \<open>The handlers\<close>

definition greet :: "env \<Rightarrow> string" where
  "greet e =
     (let hour = dt_hour (clock e);
          tod = (if 5 \<le> hour \<and> hour < 12 then ''Good morning''
                 else if 12 \<le> hour \<and> hour < 17 then ''Good afternoon''
                 else if 17 \<le> hour \<and> hour < 21 then ''Good evening''
                 else ''Hey'')
      in tod @ '', '' @ USER_NAME @ ''! How can I help you today?'')"

text \<open>
  \<^verbatim>\<open>sorted(names, key=len, reverse=True)\<close>: longest first; the sort is stable, so names
  of equal length keep the order of the table.
\<close>

definition sorted_longest_first :: "string list \<Rightarrow> string list" where
  "sorted_longest_first names = sort_key (\<lambda>n. - int (length n)) names"

text \<open>The loop shared by the three handlers below: the first name that occurs in the text.\<close>

definition first_name_in :: "string list \<Rightarrow> string \<Rightarrow> string option" where
  "first_name_in names text = find (\<lambda>n. str_in n text) (sorted_longest_first names)"

definition handle_open :: "env \<Rightarrow> string \<Rightarrow> string option" where
  "handle_open e text =
     (case first_name_in (map fst APP_COMMANDS) text of
        Some app_name \<Rightarrow> Some (open_app e app_name)
      | None \<Rightarrow> None)"

definition handle_close :: "env \<Rightarrow> string \<Rightarrow> string option" where
  "handle_close e text =
     (case first_name_in (map fst PROCESS_NAMES) text of
        Some app_name \<Rightarrow> Some (close_app e app_name)
      | None \<Rightarrow> None)"

definition handle_folder :: "env \<Rightarrow> string \<Rightarrow> string option" where
  "handle_folder e text =
     (case first_name_in (map fst FOLDER_COMMANDS) text of
        Some folder_name \<Rightarrow> Some (open_folder e folder_name)
      | None \<Rightarrow> None)"

text \<open>\<^verbatim>\<open>at\s+(\d{1,2})(?::(\d{2}))?\s*(am|pm)?\<close>\<close>

definition time_rx :: rx where
  "time_rx =
     seqs [Lit ''at'', plus sp, Grp 1 (Seq dg (Opt dg)),
           Opt (Seq (Lit '':'') (Grp 2 (Seq dg dg))), Star sp,
           Opt (Grp 3 (words [''am'', ''pm'']))]"

text \<open>\<^verbatim>\<open>remind\s+me\s+to\s+(.+?)(?:\s+at\s+[\d:]+|\s*$)\<close>\<close>

definition task_rx :: rx where
  "task_rx =
     seqs [Lit ''remind'', plus sp, Lit ''me'', plus sp, Lit ''to'', plus sp,
           Grp 1 (lazy_plus dot),
           Alt (seqs [plus sp, Lit ''at'', plus sp, plus (Cls (\<lambda>c. is_digit c \<or> c = CHR '':''))])
               (seqs [Star sp, Eol])]"

definition handle_remind :: "env \<Rightarrow> store \<Rightarrow> string \<Rightarrow> pyerr + (string \<times> store)" where
  "handle_remind e st text =
     (let time_pattern = re_search time_rx text;
          task_match = re_search task_rx text
      in case task_match of
           None \<Rightarrow> Inr (''What should I remind you about, and at what time?'', st)
         | Some tm \<Rightarrow>
            (case group tm 1 of
               None \<Rightarrow> Inl AttributeError
             | Some g \<Rightarrow>
                let tsk = strip g in
                (case time_pattern of
                   None \<Rightarrow>
                     Inr (''When should I remind you to '' @ quoted tsk
                            @ ''? Please say a time like 'at 8 pm'.'', st)
                 | Some tp \<Rightarrow>
                    (case group tp 1 of
                       None \<Rightarrow> Inl TypeError
                     | Some h \<Rightarrow>
                        let hour0 = int_of_digits h;
                            minute = (case group tp 2 of
                                        None \<Rightarrow> 0
                                      | Some m \<Rightarrow> if m = [] then 0 else int_of_digits m);
                            meridiem = group tp 3;
                            hour = (if truthy meridiem \<and> map_option lower meridiem = Some ''pm''
                                       \<and> hour0 < 12 then hour0 + 12
                                    else if truthy meridiem \<and> map_option lower meridiem = Some ''am''
                                       \<and> hour0 = 12 then 0
                                    else hour0);
                            now = clock e
                        in (case replace_time now hour minute of
                              Inl x \<Rightarrow> Inl x
                            | Inr remind_dt \<Rightarrow>
                               (case (if dt_le remind_dt now then add_one_day remind_dt
                                      else Inr remind_dt) of
                                  Inl x \<Rightarrow> Inl x
                                | Inr remind_dt' \<Rightarrow>
                                   let st' = add_reminder st tsk remind_dt';
                                       time_str = lib_strftime e ''%I:%M %p'' remind_dt'
                                   in Inr (''Got it! I'll remind you to '' @ quoted tsk @ '' at ''
                                             @ time_str @ ''.'', st')))))))"

definition join_lines :: "string list \<Rightarrow> string" where
  "join_lines ls = (case ls of [] \<Rightarrow> [] | l # rest \<Rightarrow> l @ concat (map (\<lambda>x. CHR 0x0A # x) rest))"

fun reminder_lines :: "env \<Rightarrow> reminder_view list \<Rightarrow> pyerr + string list" where
  "reminder_lines e [] = Inr []"
| "reminder_lines e (r # rs) =
     (case lib_fromisoformat e (v_remind_at r) of
        Inl x \<Rightarrow> Inl x
      | Inr dt \<Rightarrow>
         (case reminder_lines e rs of
            Inl x \<Rightarrow> Inl x
          | Inr ls \<Rightarrow>
             Inr ((bullet @ '' '' @ v_task r @ '' '' @ em_dash @ '' ''
                     @ lib_strftime e ''%A %I:%M %p'' dt) # ls)))"

definition list_reminders :: "env \<Rightarrow> store \<Rightarrow> pyerr + string" where
  "list_reminders e st =
     (let rems = get_pending_reminders st in
      if rems = [] then Inr ''You have no pending reminders.''
      else case reminder_lines e rems of
             Inl x \<Rightarrow> Inl x
           | Inr ls \<Rightarrow> Inr (''Your reminders:'' @ [CHR 0x0A] @ join_lines ls))"

text \<open>\<^verbatim>\<open>remember\s+(?:that\s+)?(.+)\<close>\<close>

definition fact_rx :: rx where
  "fact_rx =
     seqs [Lit ''remember'', plus sp, Opt (Seq (Lit ''that'') (plus sp)), Grp 1 (plus dot)]"

definition handle_remember :: "env \<Rightarrow> store \<Rightarrow> string \<Rightarrow> pyerr + (string \<times> store)" where
  "handle_remember e st text =
     (case re_search fact_rx text of
        Some fm \<Rightarrow>
          (case group fm 1 of
             None \<Rightarrow> Inl AttributeError
           | Some g \<Rightarrow>
              let fact = strip g in
              Inr (''I'll remember that: '' @ quoted fact, save_memory (clock e) st fact))
      | None \<Rightarrow> Inr (''What would you like me to remember?'', st))"

definition handle_recall :: "store \<Rightarrow> string" where
  "handle_recall st =
     (let mems = get_all_memories st in
      if mems = [] then ''I don't have anything saved in memory yet.''
      else ''Here's what I remember:'' @ [CHR 0x0A]
           @ join_lines (map (\<lambda>(c, saved). bullet @ '' '' @ c @ ''  (saved '' @ take 10 saved @ '')'')
                           mems))"

text \<open>\<^verbatim>\<open>\b(calculate|what is|compute|how much is)\b\<close>\<close>

definition calc_prefix_rx :: rx where
  "calc_prefix_rx = word_of [''calculate'', ''what is'', ''compute'', ''how much is'']"

text \<open>The character class \<^verbatim>\<open>[\d\s\+\-\*\/\^\(\)\.]\<close>.\<close>

definition calc_char :: "char \<Rightarrow> bool" where
  "calc_char c = (is_digit c \<or> is_space c \<or> c \<in> set ''+-*/^().'')"

text \<open>\<^verbatim>\<open>^[\d\s\+\-\*\/\^\(\)\.]+$\<close>, applied with \<^verbatim>\<open>re.match\<close> at the start of the text.\<close>

definition math_rx :: rx where
  "math_rx = seqs [plus (Cls calc_char), Eol]"

text \<open>\<^verbatim>\<open>cleaned.replace("^", "**")\<close>\<close>

definition replace_caret :: "string \<Rightarrow> string" where
  "replace_caret s = concat (map (\<lambda>c. if c = CHR ''^'' then ''**'' else [c]) s)"

text \<open>
  The evaluation of the expression by \<^verbatim>\<open>eval\<close> together with the formatting of its
  value in the answer; an exception of either is caught. Where the expression is outside
  the modelled part of Python, \<open>lib_eval_text\<close> of the environment stands for both.
\<close>

definition py_eval_text :: "env \<Rightarrow> string \<Rightarrow> pyerr + string" where
  "py_eval_text e expr =
     (case py_eval expr of
        Ok v \<Rightarrow> Inr (py_str v)
      | Err \<Rightarrow> Inl OtherError
      | Unknown \<Rightarrow> lib_eval_text e expr)"

definition try_calculate :: "env \<Rightarrow> string \<Rightarrow> string option" where
  "try_calculate e text =
     (let cleaned = strip (re_sub_empty calc_prefix_rx text) in
      if re_match math_rx cleaned = None then None
      else
        let expr = replace_caret cleaned in
        case py_eval_text e expr of
          Inr result \<Rightarrow> Some (''The answer is '' @ result @ ''.'')
        | Inl _ \<Rightarrow> None)"

subsection \<open>The router\<close>

text \<open>
  \<^verbatim>\<open>Brain.process\<close> is one chain of tests. It is cut here into stages at the places
  where a handler may decline and the chain goes on: \<open>process\<close> runs the tests up to
  the system controls and then the stages \<open>route_folder\<close>, \<open>route_open\<close>,
  \<open>route_close\<close>, \<open>route_reminders\<close> and \<open>route_knowledge\<close> in this order. A result
  is the response, the exit flag and the store after the call.
\<close>

type_synonym outcome = "pyerr + ((string \<times> bool) \<times> store)"

definition reply :: "string \<Rightarrow> store \<Rightarrow> outcome" where
  "reply r st = Inr ((r, False), st)"

definition route_knowledge :: "env \<Rightarrow> store \<Rightarrow> string \<Rightarrow> outcome" where
  "route_knowledge e st t =
     (if found re_weather t then
        reply (''I don't have a weather API, but you can check weather.com or ask me to open Chrome ''
               @ ''and search for the weather.'') st
      else if found re_what_is t then
        (let cleaned = strip (re_sub_empty re_what_is t) in reply (find_answer e cleaned True) st)
      else if found re_search_intent t then
        (let cleaned = strip (re_sub_empty re_search_intent t) in reply (find_answer e cleaned False) st)
      else if found re_news t then reply (find_answer e ''latest news today'' False) st
      else reply (find_answer e t True) st)"

definition route_reminders :: "env \<Rightarrow> store \<Rightarrow> string \<Rightarrow> outcome" where
  "route_reminders e st t =
     (if found re_remind t then
        (case handle_remind e st t of Inl x \<Rightarrow> Inl x | Inr (r, st') \<Rightarrow> reply r st')
      else if found re_list_reminders t then
        (case list_reminders e st of Inl x \<Rightarrow> Inl x | Inr r \<Rightarrow> reply r st)
      else if found re_remember t then
        (case handle_remember e st t of Inl x \<Rightarrow> Inl x | Inr (r, st') \<Rightarrow> reply r st')
      else if found re_recall t then reply (handle_recall st) st
      else if found re_clear_memory t then
        reply ''I've cleared all stored memories.'' (clear_memories st)
      else
        (case try_calculate e t of
           Some calc_result \<Rightarrow> reply calc_result st
         | None \<Rightarrow> route_knowledge e st t))"

definition route_close :: "env \<Rightarrow> store \<Rightarrow> string \<Rightarrow> outcome" where
  "route_close e st t =
     (let result = (if found re_close_app t then handle_close e t else None) in
      case result of
        Some r \<Rightarrow> if r \<noteq> [] then reply r st else route_reminders e st t
      | None \<Rightarrow> route_reminders e st t)"

definition route_open :: "env \<Rightarrow> store \<Rightarrow> string \<Rightarrow> outcome" where
  "route_open e st t =
     (let result = (if found re_open_app t then handle_open e t else None) in
      case result of
        Some r \<Rightarrow> if r \<noteq> [] then reply r st else route_close e st t
      | None \<Rightarrow> route_close e st t)"

definition route_folder :: "env \<Rightarrow> store \<Rightarrow> string \<Rightarrow> outcome" where
  "route_folder e st t =
     (let result = (if found re_open_folder t then handle_folder e t else None) in
      case result of
        Some r \<Rightarrow> if r \<noteq> [] then reply r st else route_open e st t
      | None \<Rightarrow> route_open e st t)"

definition process :: "env \<Rightarrow> store \<Rightarrow> string \<Rightarrow> outcome" where
  "process e st text =
     (let t = lower (strip text) in
      if t = [] then reply ''I didn't catch that. Could you repeat?'' st
      else if found re_farewell t then
        Inr ((''Take care, '' @ USER_NAME @ ''! Shutting down now.'', True), st)
      else if found re_greeting t then reply (greet e) st
      else if found re_how_are_you t then
        reply (''I'm running perfectly '' @ em_dash @ '' ready to help you, '' @ USER_NAME @ ''!'') st
      else if found re_time t then
        reply (''It's currently '' @ lib_strftime e ''%I:%M %p'' (clock e) @ ''.'') st
      else if found re_date t then
        reply (''Today is '' @ lib_strftime e ''%A, %B %d, %Y'' (clock e) @ ''.'') st
      else if found re_day t then
        reply (''Today is '' @ lib_strftime e ''%A'' (clock e) @ ''.'') st
      else if found re_joke t then reply (JOKES ! (rand_index e mod length JOKES)) st
      else if found re_lock t then reply (lock_screen e) st
      else if found re_shutdown t then reply (shutdown_pc e) st
      else if found re_restart t then reply (restart_pc e) st
      else if found re_sleep_pc t then reply (sleep_pc e) st
      else if found re_screenshot t then reply (take_screenshot e) st
      else if found re_volume_up t then reply (volume_change e ''up'') st
      else if found re_volume_down t then reply (volume_change e ''down'') st
      else if found re_mute t then reply (volume_change e ''mute'') st
      else route_folder e st t)"

section \<open>The reminder thread (memory/storage.py)\<close>

text \<open>
  What the thread does to the outside is recorded as a list of events: the callback
  invoked with the message of a reminder (the reminder's id is kept with it), and the
  reminder marked as notified.
\<close>

datatype event = Deliver int string | Marked int

definition reminder_msg :: "reminder_view \<Rightarrow> string" where
  "reminder_msg r = alarm_clock @ '' Reminder: '' @ v_task r"

text \<open>The \<^verbatim>\<open>for r in due\<close> loop of \<^verbatim>\<open>run\<close>.\<close>

fun deliver_due :: "store \<Rightarrow> event list \<Rightarrow> reminder_view list \<Rightarrow> store \<times> event list" where
  "deliver_due st log [] = (st, log)"
| "deliver_due st log (r # rs) =
     (let msg = reminder_msg r;
          log1 = log @ [Deliver (v_id r) msg];
          st1 = mark_notified st (v_id r)
      in deliver_due st1 (log1 @ [Marked (v_id r)]) rs)"

text \<open>One round of the \<^verbatim>\<open>while\<close> loop, with the clock read by the query.\<close>

definition poll_cycle :: "datetime \<Rightarrow> store \<Rightarrow> event list \<Rightarrow> store \<times> event list" where
  "poll_cycle now st log = deliver_due st log (get_due_reminders now st)"

text \<open>
  The loop, given for every round whether the stop event is set when the loop tests it,
  and the clock of that round.
\<close>

fun run_loop :: "(bool \<times> datetime) list \<Rightarrow> store \<Rightarrow> event list \<Rightarrow> store \<times> event list" where
  "run_loop [] st log = (st, log)"
| "run_loop ((stop, now) # rest) st log =
     (if stop then (st, log)
      else case poll_cycle now st log of (st1, log1) \<Rightarrow> run_loop rest st1 log1)"

subsection \<open>Threads sharing the store\<close>

text \<open>
  Every method of the store holds the store's lock for the whole of its query, so the
  calls of different threads on the store happen one after the other, in any order. A
  reminder thread is at one of three points of its loop: before the query for the due
  reminders, before the callback for the first reminder of its list, or before marking
  that reminder. The session loop changes the store by the calls that \<open>process\<close> makes.
\<close>

datatype phase = AtFetch | AtCallback | AtMark

record poller =
  ph :: phase
  due :: "reminder_view list"

definition idle :: poller where
  "idle = \<lparr>ph = AtFetch, due = []\<rparr>"

type_synonym system = "store \<times> event list \<times> poller list"

inductive step :: "system \<Rightarrow> system \<Rightarrow> bool" where
  fetch:
    "i < length ps \<Longrightarrow> ph (ps ! i) = AtFetch \<Longrightarrow> d = get_due_reminders now st \<Longrightarrow>
     step (st, log, ps)
          (st, log, ps[i := \<lparr>ph = (if d = [] then AtFetch else AtCallback), due = d\<rparr>])"
| callback:
    "i < length ps \<Longrightarrow> ph (ps ! i) = AtCallback \<Longrightarrow> due (ps ! i) = r # rs \<Longrightarrow>
     step (st, log, ps)
          (st, log @ [Deliver (v_id r) (reminder_msg r)], ps[i := \<lparr>ph = AtMark, due = r # rs\<rparr>])"
| mark:
    "i < length ps \<Longrightarrow> ph (ps ! i) = AtMark \<Longrightarrow> due (ps ! i) = r # rs \<Longrightarrow>
     step (st, log, ps)
          (mark_notified st (v_id r), log @ [Marked (v_id r)],
           ps[i := \<lparr>ph = (if rs = [] then AtFetch else AtCallback), due = rs\<rparr>])"
| session_add_reminder:
    "step (st, log, ps) (add_reminder st t remind_dt, log, ps)"
| session_save_memory:
    "step (st, log, ps) (save_memory now st c, log, ps)"
| session_clear_memories:
    "step (st, log, ps) (clear_memories st, log, ps)"

definition reachable :: "system \<Rightarrow> system \<Rightarrow> bool" where
  "reachable s s' = step\<^sup>*\<^sup>* s s'"

text \<open>The ids of the reminders delivered so far, in order.\<close>

fun delivered :: "event list \<Rightarrow> int list" where
  "delivered [] = []"
| "delivered (Deliver i m # es) = i # delivered es"
| "delivered (Marked i # es) = delivered es"

text \<open>The ids in a table are distinct, and none is above the AUTOINCREMENT counter.\<close>

definition ids_ok :: "store \<Rightarrow> bool" where
  "ids_ok st =
     (distinct (map rem_id (reminders st)) \<and> list_all (\<lambda>r. rem_id r \<le> rem_seq st) (reminders st))"

section \<open>Auxiliary definitions for the proofs\<close>

text \<open>A pattern that records group \<open>k\<close> in every match.\<close>

fun binds :: "nat \<Rightarrow> rx \<Rightarrow> bool" where
  "binds k (Grp j a) = (j = k \<or> binds k a)"
| "binds k (Seq a b) = (binds k a \<or> binds k b)"
| "binds k (Alt a b) = (binds k a \<and> binds k b)"
| "binds k r = False"

text \<open>All tests of \<open>process\<close> before the reminder tests are passed without a reply.\<close>

definition reaches_reminders :: "env \<Rightarrow> string \<Rightarrow> bool" where
  "reaches_reminders e t =
     (t \<noteq> [] \<and> \<not> found re_farewell t \<and> \<not> found re_greeting t \<and> \<not> found re_how_are_you t
      \<and> \<not> found re_time t \<and> \<not> found re_date t \<and> \<not> found re_day t \<and> \<not> found re_joke t
      \<and> \<not> found re_lock t \<and> \<not> found re_shutdown t \<and> \<not> found re_restart t
      \<and> \<not> found re_sleep_pc t \<and> \<not> found re_screenshot t \<and> \<not> found re_volume_up t
      \<and> \<not> found re_volume_down t \<and> \<not> found re_mute t
      \<and> \<not> (found re_open_folder t \<and> truthy (handle_folder e t))
      \<and> \<not> (found re_open_app t \<and> truthy (handle_open e t))
      \<and> \<not> (found re_close_app t \<and> truthy (handle_close e t)))"

text \<open>
  The 24-hour form of an hour given with an optional am or pm: pm adds 12 to an hour
  below 12, am turns hour 12 into 0.
\<close>

definition normal_hour :: "nat \<Rightarrow> string option \<Rightarrow> nat" where
  "normal_hour h mer =
     (if map_option lower mer = Some ''pm'' \<and> h < 12 then h + 12
      else if map_option lower mer = Some ''am'' \<and> h = 12 then 0
      else h)"

text \<open>
  The ids of the reminders in the table, and the ids of those not yet marked as
  notified.
\<close>

definition ids :: "store \<Rightarrow> int set" where
  "ids st = rem_id ` set (reminders st)"

definition pending :: "store \<Rightarrow> int set" where
  "pending st = rem_id ` {r \<in> set (reminders st). notified r = 0}"

text \<open>
  The reminders a thread has fetched and not yet passed to the callback, and the one
  it has passed to the callback and not yet marked.
\<close>

definition todo :: "poller \<Rightarrow> int list" where
  "todo p = (case ph p of AtFetch \<Rightarrow> [] | AtCallback \<Rightarrow> map v_id (due p)
             | AtMark \<Rightarrow> map v_id (tl (due p)))"

definition in_hand :: "poller \<Rightarrow> int set" where
  "in_hand p = (case ph p of AtFetch \<Rightarrow> {} | AtCallback \<Rightarrow> {} | AtMark \<Rightarrow> {v_id (hd (due p))})"

text \<open>
  The invariant of a system with one reminder thread: what has been delivered is in the
  table and marked, except for the reminder in the thread's hand, and nothing delivered
  is still on the thread's list.
\<close>

definition single_inv :: "system \<Rightarrow> bool" where
  "single_inv s =
     (case s of (st, log, ps) \<Rightarrow>
        length ps = 1 \<and> ids_ok st \<and> distinct (delivered log) \<and> set (delivered log) \<subseteq> ids st
        \<and> (ph (ps ! 0) \<noteq> AtFetch \<longrightarrow> due (ps ! 0) \<noteq> [])
        \<and> v_id ` set (due (ps ! 0)) \<subseteq> ids st
        \<and> distinct (map v_id (due (ps ! 0)))
        \<and> set (delivered log) \<inter> pending st \<subseteq> in_hand (ps ! 0)
        \<and> set (delivered log) \<inter> set (todo (ps ! 0)) = {})"

subsection \<open>Example values\<close>

definition env0 :: env where
  "env0 = \<lparr>clock = \<lparr>dt_year = 2026, dt_month = 1, dt_day = 31, dt_hour = 9, dt_minute = 0,
                     dt_second = 5, dt_microsecond = 7\<rparr>,
            rand_index = 0,
            lib_strftime = (\<lambda>f d. f),
            lib_fromisoformat = (\<lambda>s. Inl ValueError),
            lib_eval_text = (\<lambda>s. Inl SyntaxError),
            os_expandvars = (\<lambda>s. s),
            os_path_join = (\<lambda>a b. a @ bs @ b),
            os_startfile = (\<lambda>s. Inr 0),
            os_popen = (\<lambda>s. Inr 0),
            os_run = (\<lambda>s. Inr 0),
            search_wikipedia = (\<lambda>s. None),
            search_duckduckgo = (\<lambda>s. None)\<rparr>"

definition jan2_0900 :: datetime where
  "jan2_0900 = \<lparr>dt_year = 2026, dt_month = 1, dt_day = 2, dt_hour = 9, dt_minute = 0,
                 dt_second = 0, dt_microsecond = 0\<rparr>"

definition jan1_1100 :: datetime where
  "jan1_1100 = \<lparr>dt_year = 2026, dt_month = 1, dt_day = 1, dt_hour = 11, dt_minute = 0,
                 dt_second = 0, dt_microsecond = 0\<rparr>"

definition feb1_0800 :: datetime where
  "feb1_0800 = \<lparr>dt_year = 2026, dt_month = 2, dt_day = 1, dt_hour = 8, dt_minute = 0,
                 dt_second = 0, dt_microsecond = 0\<rparr>"

definition jan1_1000 :: datetime where
  "jan1_1000 = \<lparr>dt_year = 2026, dt_month = 1, dt_day = 1, dt_hour = 10, dt_minute = 0,
                 dt_second = 0, dt_microsecond = 0\<rparr>"

definition jan3_0000 :: datetime where
  "jan3_0000 = \<lparr>dt_year = 2026, dt_month = 1, dt_day = 3, dt_hour = 0, dt_minute = 0,
                 dt_second = 0, dt_microsecond = 0\<rparr>"

definition env_jan1 :: env where
  "env_jan1 = env0\<lparr>clock := jan1_1000\<rparr>"

definition store_one :: store where
  "store_one = add_reminder init_db ''call mom'' jan2_0900"

definition store_two :: store where
  "store_two = add_reminder store_one ''stretch'' jan1_1100"

text \<open>The two reminders of \<open>store_two\<close> as the query for the due reminders returns them.\<close>

definition call_mom_view :: reminder_view where
  "call_mom_view = \<lparr>v_id = 1, v_task = ''call mom'', v_remind_at = ''2026-01-02T09:00:00''\<rparr>"

definition stretch_view :: reminder_view where
  "stretch_view = \<lparr>v_id = 2, v_task = ''stretch'', v_remind_at = ''2026-01-01T11:00:00''\<rparr>"

definition both_due :: "phase \<Rightarrow> poller" where
  "both_due p = \<lparr>ph = p, due = [call_mom_view, stretch_view]\<rparr>"

definition stretch_due :: "phase \<Rightarrow> poller" where
  "stretch_due p = \<lparr>ph = p, due = [stretch_view]\<rparr>"

section \<open>Properties of the ISO format\<close>

lemma code_digit_char: "k < 10 \<Longrightarrow> code (digit_char k) = 48 + k"
  by (simp add: code_def digit_char_def)

lemma digit_char_0: "digit_char 0 = CHR ''0''"
  unfolding digit_char_def by code_simp

lemma dec_1: "n < 10 \<Longrightarrow> dec n = [digit_char n]"
  by (subst dec.simps) simp

lemma dec_2: "10 \<le> n \<Longrightarrow> n < 100 \<Longrightarrow> dec n = [digit_char (n div 10), digit_char (n mod 10)]"
  by (subst dec.simps) (simp add: dec_1)

lemma dec_3: "100 \<le> n \<Longrightarrow> n < 1000 \<Longrightarrow>
  dec n = [digit_char (n div 100), digit_char (n div 10 mod 10), digit_char (n mod 10)]"
  by (subst dec.simps) (simp add: dec_2 div_mult2_eq[symmetric])

lemma dec_4: "1000 \<le> n \<Longrightarrow> n < 10000 \<Longrightarrow>
  dec n = [digit_char (n div 1000), digit_char (n div 100 mod 10), digit_char (n div 10 mod 10), digit_char (n mod 10)]"
  by (subst dec.simps) (simp add: dec_3 div_mult2_eq[symmetric])

lemma zpad2: "n < 100 \<Longrightarrow> zpad 2 n = [digit_char (n div 10), digit_char (n mod 10)]"
  by (cases "n < 10") (simp_all add: zpad_def dec_1 dec_2 digit_char_0)

lemma replicate_3: "replicate 3 x = [x, x, x]"
  by (simp add: numeral_3_eq_3)

lemma replicate_2: "replicate 2 x = [x, x]"
  by (simp add: numeral_2_eq_2)

lemma zpad4: "n < 10000 \<Longrightarrow> zpad 4 n =
   [digit_char (n div 1000), digit_char (n div 100 mod 10), digit_char (n div 10 mod 10), digit_char (n mod 10)]"
proof -
  assume n: "n < 10000"
  consider "n < 10" | "10 \<le> n" "n < 100" | "100 \<le> n" "n < 1000" | "1000 \<le> n"
    by linarith
  then show ?thesis
  proof cases
    case 1 then show ?thesis by (simp add: zpad_def dec_1 digit_char_0 replicate_3)
  next
    case 2 then show ?thesis by (simp add: zpad_def dec_2 digit_char_0 replicate_2)
  next
    case 3 then show ?thesis by (simp add: zpad_def dec_3 digit_char_0)
  next
    case 4 then show ?thesis using n by (simp add: zpad_def dec_4)
  qed
qed

lemma lex_append_le:
  fixes xs ys :: "nat list"
  shows "length xs = length ys \<Longrightarrow> (xs @ us \<le> ys @ vs) = (xs < ys \<or> xs = ys \<and> us \<le> vs)"
  by (induction xs ys rule: list_induct2) auto

lemma key_zpad2: "n < 100 \<Longrightarrow> str_key (zpad 2 n) = [48 + n div 10, 48 + n mod 10]"
  by (simp add: zpad2 str_key_def code_digit_char)

lemma key_zpad4: "n < 10000 \<Longrightarrow> str_key (zpad 4 n) =
   [48 + n div 1000, 48 + n div 100 mod 10, 48 + n div 10 mod 10, 48 + n mod 10]"
  by (simp add: zpad4 str_key_def code_digit_char)

lemma two_digits_eq:
  "((a::nat) div 10 = b div 10 \<and> a mod 10 = b mod 10) = (a = b)"
  by (metis div_mult_mod_eq)

lemma two_digits_less:
  "((a::nat) div 10 < b div 10 \<or> a div 10 = b div 10 \<and> a mod 10 < b mod 10) = (a < b)"
proof -
  have a: "a = 10 * (a div 10) + a mod 10" and b: "b = 10 * (b div 10) + b mod 10" by simp_all
  have ma: "a mod 10 < 10" and mb: "b mod 10 < 10" by simp_all
  show ?thesis using a b ma mb by linarith
qed


lemma four_digits_eq:
  "((a::nat) div 1000 = b div 1000 \<and> a div 100 mod 10 = b div 100 mod 10
     \<and> a div 10 mod 10 = b div 10 mod 10 \<and> a mod 10 = b mod 10) = (a = b)"
proof -
  have "a div 100 div 10 = a div 1000" "b div 100 div 10 = b div 1000"
    by (simp_all add: div_mult2_eq[symmetric])
  then have h: "(a div 1000 = b div 1000 \<and> a div 100 mod 10 = b div 100 mod 10) = (a div 100 = b div 100)"
    using two_digits_eq[of "a div 100" "b div 100"] by simp
  have "a div 10 div 10 = a div 100" "b div 10 div 10 = b div 100"
    by (simp_all add: div_mult2_eq[symmetric])
  then have h2: "(a div 100 = b div 100 \<and> a div 10 mod 10 = b div 10 mod 10) = (a div 10 = b div 10)"
    using two_digits_eq[of "a div 10" "b div 10"] by simp
  show ?thesis using h h2 two_digits_eq[of a b] by blast
qed

lemma four_digits_less:
  "((a::nat) div 1000 < b div 1000 \<or> a div 1000 = b div 1000 \<and>
     (a div 100 mod 10 < b div 100 mod 10 \<or> a div 100 mod 10 = b div 100 mod 10 \<and>
       (a div 10 mod 10 < b div 10 mod 10 \<or> a div 10 mod 10 = b div 10 mod 10 \<and>
          a mod 10 < b mod 10))) = (a < b)"
proof -
  have e1: "a div 100 div 10 = a div 1000" "b div 100 div 10 = b div 1000"
    by (simp_all add: div_mult2_eq[symmetric])
  have e2: "a div 10 div 10 = a div 100" "b div 10 div 10 = b div 100"
    by (simp_all add: div_mult2_eq[symmetric])
  have l1: "(a div 1000 < b div 1000 \<or> a div 1000 = b div 1000 \<and> a div 100 mod 10 < b div 100 mod 10)
            = (a div 100 < b div 100)"
    using two_digits_less[of "a div 100" "b div 100"] e1 by simp
  have q1: "(a div 1000 = b div 1000 \<and> a div 100 mod 10 = b div 100 mod 10) = (a div 100 = b div 100)"
    using two_digits_eq[of "a div 100" "b div 100"] e1 by simp
  have l2: "(a div 100 < b div 100 \<or> a div 100 = b div 100 \<and> a div 10 mod 10 < b div 10 mod 10)
            = (a div 10 < b div 10)"
    using two_digits_less[of "a div 10" "b div 10"] e2 by simp
  have q2: "(a div 100 = b div 100 \<and> a div 10 mod 10 = b div 10 mod 10) = (a div 10 = b div 10)"
    using two_digits_eq[of "a div 10" "b div 10"] e2 by simp
  show ?thesis using l1 q1 l2 q2 two_digits_less[of a b] by blast
qed

lemma key2_less: "a < 100 \<Longrightarrow> b < 100 \<Longrightarrow> (str_key (zpad 2 a) < str_key (zpad 2 b)) = (a < b)"
  using two_digits_less[of a b] by (simp add: key_zpad2)

lemma key2_eq: "a < 100 \<Longrightarrow> b < 100 \<Longrightarrow> (str_key (zpad 2 a) = str_key (zpad 2 b)) = (a = b)"
  using two_digits_eq[of a b] by (simp add: key_zpad2)

lemma key4_less: "a < 10000 \<Longrightarrow> b < 10000 \<Longrightarrow> (str_key (zpad 4 a) < str_key (zpad 4 b)) = (a < b)"
  using four_digits_less[of a b] by (simp add: key_zpad4)

lemma key4_eq: "a < 10000 \<Longrightarrow> b < 10000 \<Longrightarrow> (str_key (zpad 4 a) = str_key (zpad 4 b)) = (a = b)"
  using four_digits_eq[of a b] by (simp add: key_zpad4)

lemma lex_block_le:
  fixes p q :: "nat list"
  shows "length p = length q \<Longrightarrow> (p @ c # us \<le> q @ c # vs) = (p < q \<or> p = q \<and> us \<le> vs)"
  by (simp add: lex_append_le)

lemma length_key_zpad2: "n < 100 \<Longrightarrow> length (str_key (zpad 2 n)) = 2"
  by (simp add: key_zpad2)

lemma length_key_zpad4: "n < 10000 \<Longrightarrow> length (str_key (zpad 4 n)) = 4"
  by (simp add: key_zpad4)

lemma str_key_append: "str_key (a @ b) = str_key a @ str_key b"
  by (simp add: str_key_def)

lemma str_key_Cons: "str_key (c # s) = code c # str_key s"
  by (simp add: str_key_def)

lemma str_key_Nil: "str_key [] = []"
  by (simp add: str_key_def)

lemma key_isoformat:
  "str_key (isoformat d) =
     str_key (zpad 4 (dt_year d)) @ 45 # str_key (zpad 2 (dt_month d)) @ 45 #
     str_key (zpad 2 (dt_day d)) @ 84 # str_key (zpad 2 (dt_hour d)) @ 58 #
     str_key (zpad 2 (dt_minute d)) @ 58 # str_key (zpad 2 (dt_second d)) @ []"
  by (simp add: isoformat_def str_key_append str_key_Cons str_key_Nil code_def)

lemma valid_dt_bounds:
  assumes "valid_dt d"
  shows "dt_year d < 10000" "dt_month d < 100" "dt_day d < 100" "dt_hour d < 100"
    "dt_minute d < 100" "dt_second d < 100"
proof -
  have "days_in_month (dt_year d) (dt_month d) \<le> 31"
    by (simp add: days_in_month_def)
  then show "dt_year d < 10000" "dt_month d < 100" "dt_day d < 100" "dt_hour d < 100"
    "dt_minute d < 100" "dt_second d < 100"
    using assms by (auto simp: valid_dt_def)
qed

lemma isoformat_order:
  assumes a: "valid_dt a" and b: "valid_dt b"
  shows "(str_key (isoformat a) \<le> str_key (isoformat b)) = (sec_key a \<le> sec_key b)"
proof -
  note A = valid_dt_bounds[OF a] and B = valid_dt_bounds[OF b]
  have last: "(str_key (zpad 2 (dt_second a)) @ [] \<le> str_key (zpad 2 (dt_second b)) @ [])
      = (dt_second a \<le> dt_second b)"
    using key2_less[OF A(6) B(6)] key2_eq[OF A(6) B(6)] by (auto simp: le_less)
  show ?thesis
    unfolding key_isoformat
    by (simp only: lex_block_le length_key_zpad2 length_key_zpad4 A B last
          key2_less key2_eq key4_less key4_eq sec_key_def)
       (auto simp: le_less)
qed


lemma is_digit_digit_char: "k < 10 \<Longrightarrow> is_digit (digit_char k)"
  by (simp add: is_digit_def code_digit_char)

lemma isoformat_shape:
  assumes "valid_dt d"
  shows "iso_shape (isoformat d)"
proof -
  note B = valid_dt_bounds[OF assms]
  have y: "dt_year d div 1000 < 10" using B(1) by simp
  have m: "dt_month d div 10 < 10" "dt_day d div 10 < 10" "dt_hour d div 10 < 10"
    "dt_minute d div 10 < 10" "dt_second d div 10 < 10"
    using B by simp_all
  show ?thesis
    using y m
    by (simp add: iso_shape_def isoformat_def zpad2 zpad4 B is_digit_digit_char)
qed

section \<open>Properties of dates\<close>

lemma div_step:
  fixes y :: nat
  assumes "0 < y" and "0 < k"
  shows "y div k = (y - 1) div k + (if y mod k = 0 then 1 else 0)"
proof -
  obtain p where p: "y = Suc p" using assms(1) by (cases y) auto
  show ?thesis unfolding p by (simp add: div_Suc mod_Suc)
qed

lemma mod_100_4: "(y::nat) mod 100 = 0 \<Longrightarrow> y mod 4 = 0"
proof -
  assume a: "y mod 100 = 0"
  have "y mod 4 = y mod 100 mod 4" by (simp add: mod_mod_cancel)
  then show ?thesis using a by simp
qed

lemma mod_400_100: "(y::nat) mod 400 = 0 \<Longrightarrow> y mod 100 = 0"
proof -
  assume a: "y mod 400 = 0"
  have "y mod 100 = y mod 400 mod 100" by (simp add: mod_mod_cancel)
  then show ?thesis using a by simp
qed


lemma year_arith:
  fixes P a b c :: nat
  assumes "b \<le> a"
  shows "P + 365 + a - b + c = (P + a - b + c) + 365"
    and "P + 365 + (a + 1) - b + c = (P + a - b + c) + 365 + 1"
    and "P + 365 + (a + 1) - (b + 1) + c = (P + a - b + c) + 365"
    and "P + 365 + (a + 1) - (b + 1) + (c + 1) = (P + a - b + c) + 365 + 1"
  using assms by linarith+

lemma days_before_next_year:
  assumes "0 < y"
  shows "days_before_year (Suc y) = days_before_year y + 365 + (if is_leap y then 1 else 0)"
proof -
  define a where "a = (y - 1) div 4"
  define b where "b = (y - 1) div 100"
  define c where "c = (y - 1) div 400"
  define P where "P = (y - 1) * 365"
  have d4: "y div 4 = a + (if y mod 4 = 0 then 1 else 0)"
    using div_step[OF assms, of 4] by (simp add: a_def)
  have d100: "y div 100 = b + (if y mod 100 = 0 then 1 else 0)"
    using div_step[OF assms, of 100] by (simp add: b_def)
  have d400: "y div 400 = c + (if y mod 400 = 0 then 1 else 0)"
    using div_step[OF assms, of 400] by (simp add: c_def)
  have le1: "b \<le> a"
    unfolding a_def b_def by (rule div_le_mono2) simp_all
  have y365: "y * 365 = P + 365"
    unfolding P_def using assms by (cases y) simp_all
  have L: "days_before_year (Suc y) = y * 365 + y div 4 - y div 100 + y div 400"
    by (simp add: days_before_year_def Let_def)
  have R: "days_before_year y = P + a - b + c"
    by (simp add: days_before_year_def Let_def a_def b_def c_def P_def)
  have i1: "y mod 100 \<noteq> 0" if "y mod 4 \<noteq> 0"
  proof
    assume "y mod 100 = 0"
    then have "y mod 4 = 0" by (rule mod_100_4)
    with that show False by simp
  qed
  have i2: "y mod 400 \<noteq> 0" if "y mod 100 \<noteq> 0"
  proof
    assume "y mod 400 = 0"
    then have "y mod 100 = 0" by (rule mod_400_100)
    with that show False by simp
  qed
  show ?thesis
  proof (cases "y mod 4 = 0")
    case False
    have n1: "y mod 100 \<noteq> 0" using False by (rule i1)
    have n2: "y mod 400 \<noteq> 0" using n1 by (rule i2)
    have leap: "\<not> is_leap y" using False by (simp add: is_leap_def)
    have e: "y div 4 = a" "y div 100 = b" "y div 400 = c"
      using d4 d100 d400 False n1 n2 by simp_all
    have "days_before_year (Suc y) = P + 365 + a - b + c"
      by (simp only: L y365 e)
    also have "\<dots> = (P + a - b + c) + 365"
      using le1 by (rule year_arith(1))
    finally show ?thesis using leap by (simp only: R if_False add_0_right)
  next
    case m4: True
    show ?thesis
    proof (cases "y mod 100 = 0")
      case False
      have n2: "y mod 400 \<noteq> 0" using False by (rule i2)
      have leap: "is_leap y" using m4 False by (simp add: is_leap_def)
      have e: "y div 4 = a + 1" "y div 100 = b" "y div 400 = c"
        using d4 d100 d400 m4 False n2 by simp_all
      have "days_before_year (Suc y) = P + 365 + (a + 1) - b + c"
        by (simp only: L y365 e)
      also have "\<dots> = (P + a - b + c) + 365 + 1"
        using le1 by (rule year_arith(2))
      finally show ?thesis using leap by (simp only: R if_True)
    next
      case m100: True
      show ?thesis
      proof (cases "y mod 400 = 0")
        case False
        have leap: "\<not> is_leap y" using m100 False by (simp add: is_leap_def)
        have e: "y div 4 = a + 1" "y div 100 = b + 1" "y div 400 = c"
          using d4 d100 d400 m4 m100 False by simp_all
        have "days_before_year (Suc y) = P + 365 + (a + 1) - (b + 1) + c"
          by (simp only: L y365 e)
        also have "\<dots> = (P + a - b + c) + 365"
          using le1 by (rule year_arith(3))
        finally show ?thesis using leap by (simp only: R if_False add_0_right)
      next
        case True
        have leap: "is_leap y" using m4 True by (simp add: is_leap_def)
        have e: "y div 4 = a + 1" "y div 100 = b + 1" "y div 400 = c + 1"
          using d4 d100 d400 m4 m100 True by simp_all
        have "days_before_year (Suc y) = P + 365 + (a + 1) - (b + 1) + (c + 1)"
          by (simp only: L y365 e)
        also have "\<dots> = (P + a - b + c) + 365 + 1"
          using le1 by (rule year_arith(4))
        finally show ?thesis using leap by (simp only: R if_True)
      qed
    qed
  qed
qed


lemma days_before_month_Suc:
  "0 < m \<Longrightarrow> days_before_month y (Suc m) = days_before_month y m + days_in_month y m"
  by (cases m) simp_all

lemma days_before_month_12:
  "days_before_month y 12 + 31 = 365 + (if is_leap y then 1 else 0)"
  by (simp add: eval_nat_numeral days_in_month_def)

lemma days_in_month_pos: "0 < days_in_month y m"
  by (simp add: days_in_month_def)

lemma days_in_month_12: "days_in_month y 12 = 31"
  by (simp add: days_in_month_def)

lemma toordinal_add_one_day:
  assumes v: "valid_dt d" and a: "add_one_day d = Inr d'"
  shows "toordinal d' = toordinal d + 1"
proof (cases "dt_day d < days_in_month (dt_year d) (dt_month d)")
  case True
  then have "d' = d\<lparr>dt_day := dt_day d + 1\<rparr>" using a by (simp add: add_one_day_def)
  then show ?thesis by (simp add: toordinal_def)
next
  case False
  then have day: "dt_day d = days_in_month (dt_year d) (dt_month d)"
    using v by (simp add: valid_dt_def)
  show ?thesis
  proof (cases "dt_month d < 12")
    case True
    then have d': "d' = d\<lparr>dt_month := dt_month d + 1, dt_day := 1\<rparr>"
      using a False by (simp add: add_one_day_def)
    have "0 < dt_month d" using v by (simp add: valid_dt_def)
    then show ?thesis
      using days_before_month_Suc[of "dt_month d" "dt_year d"] day
      by (simp add: d' toordinal_def)
  next
    case m: False
    then have m12: "dt_month d = 12" using v by (simp add: valid_dt_def)
    have y: "dt_year d < 9999" "d' = d\<lparr>dt_year := dt_year d + 1, dt_month := 1, dt_day := 1\<rparr>"
      using a False m by (auto simp: add_one_day_def split: if_splits)
    have y0: "0 < dt_year d" using v by (simp add: valid_dt_def)
    have d31: "dt_day d = 31" using day m12 by (simp add: days_in_month_12)
    show ?thesis
      using days_before_next_year[OF y0] days_before_month_12[of "dt_year d"]
      by (simp add: y(2) toordinal_def m12 d31)
  qed
qed

lemma add_one_day_valid:
  assumes v: "valid_dt d" and a: "add_one_day d = Inr d'"
  shows "valid_dt d'"
  using v a days_in_month_pos[of "dt_year d" "dt_month d + 1"] days_in_month_pos[of "dt_year d + 1" 1]
  by (auto simp: add_one_day_def valid_dt_def Suc_le_eq split: if_splits)

lemma add_one_day_time:
  assumes "add_one_day d = Inr d'"
  shows "dt_hour d' = dt_hour d \<and> dt_minute d' = dt_minute d \<and> dt_second d' = dt_second d
       \<and> dt_microsecond d' = dt_microsecond d"
  using assms by (auto simp: add_one_day_def split: if_splits)

lemma add_one_day_later:
  assumes "add_one_day d = Inr d'"
    and "dt_year n = dt_year d" "dt_month n = dt_month d" "dt_day n = dt_day d"
  shows "dt_less n d'"
  using assms by (auto simp: add_one_day_def dt_less_def dt_key_def split: if_splits)

lemma not_dt_le: "\<not> dt_le a b \<longleftrightarrow> dt_less b a"
  by (simp add: dt_le_def dt_less_def not_le)


section \<open>Properties of the store\<close>

lemma set_get_due_reminders:
  "set (get_due_reminders now st) =
     view ` {r \<in> set (reminders st).
               notified r = 0 \<and> str_key (remind_at r) \<le> str_key (isoformat now)}"
  by (simp add: get_due_reminders_def)

lemma dt_le_sec_key:
  "dt_microsecond a = 0 \<Longrightarrow> dt_le a b = (sec_key a \<le> sec_key b)"
  by (auto simp: dt_le_def dt_key_def sec_key_def)

lemma add_reminder_last:
  "last (reminders (add_reminder st t a)) =
     \<lparr>rem_id = rem_seq st + 1, task = strip t, remind_at = isoformat a, notified = 0\<rparr>"
  by (simp add: add_reminder_def)

text \<open>
  Claim C8. For every store and every instant \<open>now\<close>, the query for due reminders
  returns exactly the rows that are not yet notified and whose \<open>remind_at\<close> is at most
  \<open>now\<close> (in the store's comparison of the two ISO texts): no notified reminder and no
  reminder with a later \<open>remind_at\<close> is returned, and every other one is.
\<close>

theorem get_due_reminders_exact:
  "v \<in> set (get_due_reminders now st) \<longleftrightarrow>
     (\<exists>r \<in> set (reminders st). v = view r \<and> notified r = 0
        \<and> str_key (remind_at r) \<le> str_key (isoformat now))"
  unfolding set_get_due_reminders by blast

text \<open>
  Claim C10. The \<open>remind_at\<close> that \<open>add_reminder\<close> writes for a datetime is its ISO text
  of the fixed form YYYY-MM-DDTHH:MM:SS, and on such texts the store's comparison agrees
  with the order in time at the precision of seconds; for a datetime with no
  microseconds, as the processor passes, it agrees with the comparison of the datetimes.
\<close>

theorem remind_at_iso_order:
  assumes "valid_dt a" and "valid_dt b"
  shows "remind_at (last (reminders (add_reminder st t a))) = isoformat a
       \<and> iso_shape (isoformat a)
       \<and> ((str_key (isoformat a) \<le> str_key (isoformat b)) = (sec_key a \<le> sec_key b))
       \<and> (dt_microsecond a = 0 \<longrightarrow>
            (str_key (isoformat a) \<le> str_key (isoformat b)) = dt_le a b)"
proof -
  have 1: "remind_at (last (reminders (add_reminder st t a))) = isoformat a"
    by (simp add: add_reminder_last)
  have 2: "iso_shape (isoformat a)"
    using assms(1) by (rule isoformat_shape)
  have 3: "(str_key (isoformat a) \<le> str_key (isoformat b)) = (sec_key a \<le> sec_key b)"
    using assms by (rule isoformat_order)
  have 4: "dt_microsecond a = 0 \<longrightarrow> (str_key (isoformat a) \<le> str_key (isoformat b)) = dt_le a b"
    using 3 by (simp add: dt_le_sec_key)
  from 1 2 3 4 show ?thesis by blast
qed

lemma valid_jan2_0900: "valid_dt jan2_0900"
  by (simp add: valid_dt_def jan2_0900_def days_in_month_def)

lemma valid_jan1_1100: "valid_dt jan1_1100"
  by (simp add: valid_dt_def jan1_1100_def days_in_month_def)

theorem remind_at_iso_order_witness:
  "valid_dt jan2_0900 \<and> valid_dt jan1_1100
   \<and> iso_shape (isoformat jan2_0900)
   \<and> \<not> str_key (isoformat jan2_0900) \<le> str_key (isoformat jan1_1100)
   \<and> \<not> dt_le jan2_0900 jan1_1100"
  using remind_at_iso_order[OF valid_jan2_0900 valid_jan1_1100, of init_db "''x''"]
        valid_jan2_0900 valid_jan1_1100
  by (simp add: sec_key_def dt_le_def dt_key_def jan2_0900_def jan1_1100_def)

section \<open>Properties of the matcher\<close>

lemma star_run_Suc_cases:
  "st' \<in> set (star_run f g (Suc n) st) \<Longrightarrow>
     st' = st \<or> (\<exists>s\<in>set (f st). st' \<in> set (star_run f g n s))"
  by (auto simp: Let_def split: if_splits)

lemma star_run_preserves:
  assumes step: "\<And>s s'. P s \<Longrightarrow> s' \<in> set (f s) \<Longrightarrow> P s'"
  shows "P st \<Longrightarrow> st' \<in> set (star_run f g n st) \<Longrightarrow> P st'"
proof (induction n arbitrary: st)
  case 0
  then show ?case by simp
next
  case (Suc n)
  from Suc.prems(2) have "st' = st \<or> (\<exists>s\<in>set (f st). st' \<in> set (star_run f g n s))"
    by (rule star_run_Suc_cases)
  then show ?case
  proof
    assume "st' = st"
    then show ?thesis using Suc.prems(1) by simp
  next
    assume "\<exists>s\<in>set (f st). st' \<in> set (star_run f g n s)"
    then obtain s where s: "s \<in> set (f st)" "st' \<in> set (star_run f g n s)" by blast
    show ?thesis using Suc.IH[OF step[OF Suc.prems(1) s(1)] s(2)] .
  qed
qed

lemma group_cons: "group (p, s, g) k \<noteq> None \<Longrightarrow> group (p', s', (j, v) # g) k \<noteq> None"
  by (simp add: group_def m_groups_def)

lemma group_same: "m_groups st' = m_groups st \<Longrightarrow> group st' k = group st k"
  by (simp add: group_def)

lemma run_Seq_mid:
  "st' \<in> set (run (Seq a b) st) \<Longrightarrow> \<exists>mid\<in>set (run a st). st' \<in> set (run b mid)"
  by simp

lemma run_Alt_cases:
  "st' \<in> set (run (Alt a b) st) \<Longrightarrow> st' \<in> set (run a st) \<or> st' \<in> set (run b st)"
  by simp

lemma run_Opt_cases:
  "st' \<in> set (run (Opt a) st) \<Longrightarrow> st' \<in> set (run a st) \<or> st' = st"
  by auto

lemma run_Lit_groups: "st' \<in> set (run (Lit w) st) \<Longrightarrow> m_groups st' = m_groups st"
  by (auto simp: m_groups_def split: option.splits prod.splits)

lemma run_Cls_groups: "st' \<in> set (run (Cls P) st) \<Longrightarrow> m_groups st' = m_groups st"
  by (auto simp: m_groups_def split: list.splits if_splits)

lemma run_Grp_inner:
  "st' \<in> set (run (Grp j a) st) \<Longrightarrow>
     \<exists>s\<in>set (run a st). \<exists>v. st' = (m_prev s, m_rest s, (j, v) # m_groups s)"
  by auto

lemma group_Grp_same: "group (p, s, (k, v) # g) k \<noteq> None"
  by (simp add: group_def m_groups_def)

lemma group_Grp_keep: "group s k \<noteq> None \<Longrightarrow> group (p, r, (j, v) # m_groups s) k \<noteq> None"
  by (simp add: group_def m_groups_def)


lemma run_keeps_group:
  "group st k \<noteq> None \<Longrightarrow> st' \<in> set (run r st) \<Longrightarrow> group st' k \<noteq> None"
proof (induction r arbitrary: st st')
  case (Lit w)
  then show ?case using run_Lit_groups group_same by metis
next
  case (Cls P)
  then show ?case using run_Cls_groups group_same by metis
next
  case (Seq a b)
  from run_Seq_mid[OF Seq.prems(2)] obtain mid
    where "mid \<in> set (run a st)" "st' \<in> set (run b mid)" by blast
  then show ?case using Seq.IH Seq.prems(1) by blast
next
  case (Alt a b)
  then show ?case using run_Alt_cases by blast
next
  case (Opt a)
  then show ?case using run_Opt_cases by blast
next
  case (Star a)
  have "st' \<in> set (star_run (run a) True (length (m_rest st)) st)"
    using Star.prems(2) by simp
  then show ?case
    using star_run_preserves[where P="\<lambda>s. group s k \<noteq> None" and f="run a"] Star.IH Star.prems(1)
    by blast
next
  case (LazyStar a)
  have "st' \<in> set (star_run (run a) False (length (m_rest st)) st)"
    using LazyStar.prems(2) by simp
  then show ?case
    using star_run_preserves[where P="\<lambda>s. group s k \<noteq> None" and f="run a"]
      LazyStar.IH LazyStar.prems(1)
    by blast
next
  case (Grp j a)
  from run_Grp_inner[OF Grp.prems(2)] obtain s v
    where s: "s \<in> set (run a st)" "st' = (m_prev s, m_rest s, (j, v) # m_groups s)" by blast
  have "group s k \<noteq> None" using Grp.IH[OF Grp.prems(1) s(1)] .
  then show ?case unfolding s(2) by (rule group_Grp_keep)
next
  case WordB
  then show ?case by (simp split: if_splits)
next
  case Eol
  then show ?case by (simp split: if_splits)
qed

lemma run_binds:
  "binds k r \<Longrightarrow> st' \<in> set (run r st) \<Longrightarrow> group st' k \<noteq> None"
proof (induction r arbitrary: st st')
  case (Seq a b)
  from run_Seq_mid[OF Seq.prems(2)] obtain mid
    where mid: "mid \<in> set (run a st)" "st' \<in> set (run b mid)" by blast
  show ?case
  proof (cases "binds k a")
    case True
    then have "group mid k \<noteq> None" using Seq.IH(1) mid(1) by blast
    then show ?thesis using run_keeps_group mid(2) by blast
  next
    case False
    then have "binds k b" using Seq.prems(1) by simp
    then show ?thesis using Seq.IH(2) mid(2) by blast
  qed
next
  case (Alt a b)
  from Alt.prems(1) have b: "binds k a" "binds k b" by simp_all
  from run_Alt_cases[OF Alt.prems(2)] show ?case using Alt.IH b by blast
next
  case (Grp j a)
  from run_Grp_inner[OF Grp.prems(2)] obtain s v
    where s: "s \<in> set (run a st)" "st' = (m_prev s, m_rest s, (j, v) # m_groups s)" by blast
  show ?case
  proof (cases "j = k")
    case True
    then show ?thesis unfolding s(2) by (simp add: group_Grp_same)
  next
    case False
    then have "binds k a" using Grp.prems(1) by simp
    then have "group s k \<noteq> None" using Grp.IH s(1) by blast
    then show ?thesis unfolding s(2) by (rule group_Grp_keep)
  qed
qed simp_all

lemma match_here_in_run:
  "match_here r p s = Some m \<Longrightarrow> m \<in> set (run r (p, s, []))"
  by (auto simp: match_here_def split: list.splits)

lemma search_from_in_run:
  "search_from r p s = Some m \<Longrightarrow> \<exists>p' s'. m \<in> set (run r (p', s', []))"
proof (induction s arbitrary: p)
  case Nil
  then have "m \<in> set (run r (p, [], []))" by (simp add: match_here_in_run)
  then show ?case by blast
next
  case (Cons c cs)
  show ?case
  proof (cases "match_here r p (c # cs)")
    case None
    then have "search_from r (Some c) cs = Some m" using Cons.prems by simp
    then show ?thesis by (rule Cons.IH)
  next
    case (Some m')
    then have "m' = m" using Cons.prems by simp
    then have "m \<in> set (run r (p, c # cs, []))" using Some by (simp add: match_here_in_run)
    then show ?thesis by blast
  qed
qed

lemma search_binds:
  assumes "binds k r" and "re_search r s = Some m"
  shows "group m k \<noteq> None"
proof -
  from assms(2) obtain p' s' where "m \<in> set (run r (p', s', []))"
    unfolding re_search_def using search_from_in_run by blast
  then show ?thesis using run_binds[OF assms(1)] by blast
qed

lemma binds_task_rx: "binds 1 task_rx"
  by (simp add: task_rx_def)

lemma binds_time_rx: "binds 1 time_rx"
  by (simp add: time_rx_def)

lemma binds_fact_rx: "binds 1 fact_rx"
  by (simp add: fact_rx_def)














section \<open>Properties of the handlers\<close>

lemma is_prefix_iff: "is_prefix a b \<longleftrightarrow> (\<exists>s. b = a @ s)"
  by (induction a b rule: is_prefix.induct) auto

lemma str_in_iff: "str_in a b \<longleftrightarrow> (\<exists>p s. b = p @ a @ s)"
proof (induction b)
  case Nil
  then show ?case by simp
next
  case (Cons y ys)
  show ?case
  proof
    assume "str_in a (y # ys)"
    then consider "is_prefix a (y # ys)" | "str_in a ys" by auto
    then show "\<exists>p s. y # ys = p @ a @ s"
    proof cases
      case 1
      then obtain s where "y # ys = a @ s" by (auto simp: is_prefix_iff)
      then have "y # ys = [] @ a @ s" by simp
      then show ?thesis by blast
    next
      case 2
      then obtain p s where "ys = p @ a @ s" using Cons.IH by blast
      then have "y # ys = (y # p) @ a @ s" by simp
      then show ?thesis by blast
    qed
  next
    assume "\<exists>p s. y # ys = p @ a @ s"
    then obtain p s where e: "y # ys = p @ a @ s" by blast
    show "str_in a (y # ys)"
    proof (cases p)
      case Nil
      then have "is_prefix a (y # ys)" using e by (auto simp: is_prefix_iff)
      then show ?thesis by simp
    next
      case (Cons z zs)
      then have "ys = zs @ a @ s" using e by simp
      then have "str_in a ys" using Cons.IH by blast
      then show ?thesis by simp
    qed
  qed
qed

lemma set_sorted_longest_first: "set (sorted_longest_first names) = set names"
  by (simp add: sorted_longest_first_def)

lemma sorted_longest_first_sorted:
  "sorted (map (\<lambda>n. - int (length n)) (sorted_longest_first names))"
  by (simp add: sorted_longest_first_def)

lemma find_sorted_least:
  fixes f :: "'a \<Rightarrow> int"
  assumes "sorted (map f xs)" and "find P xs = Some x" and "y \<in> set xs" and "P y"
  shows "f x \<le> f y"
proof -
  from assms(2) obtain i where i: "i < length xs" "P (xs ! i)" "x = xs ! i" "\<forall>j<i. \<not> P (xs ! j)"
    by (auto simp: find_Some_iff)
  from assms(3) obtain k where k: "k < length xs" "y = xs ! k"
    by (auto simp: in_set_conv_nth)
  have "i \<le> k" using i(4) k assms(4) by (meson not_le)
  then have "map f xs ! i \<le> map f xs ! k"
    using assms(1) k(1) by (simp add: sorted_iff_nth_mono del: nth_map)
  then show ?thesis using i k \<open>i \<le> k\<close> by simp
qed

lemma first_name_in_Some:
  assumes "first_name_in names text = Some n"
  shows "n \<in> set names \<and> str_in n text
       \<and> (\<forall>m\<in>set names. str_in m text \<longrightarrow> length m \<le> length n)"
proof -
  let ?xs = "sorted_longest_first names"
  have f: "find (\<lambda>n. str_in n text) ?xs = Some n"
    using assms by (simp add: first_name_in_def)
  then have 1: "n \<in> set ?xs" "str_in n text"
    by (auto simp: find_Some_iff)
  have 2: "length m \<le> length n" if "m \<in> set names" "str_in m text" for m
  proof -
    have "m \<in> set ?xs" using that(1) by (simp add: set_sorted_longest_first)
    then have "- int (length n) \<le> - int (length m)"
      using find_sorted_least[OF sorted_longest_first_sorted f _ that(2)] by blast
    then show ?thesis by simp
  qed
  show ?thesis using 1 2 by (auto simp: set_sorted_longest_first)
qed

lemma first_name_in_None:
  "first_name_in names text = None \<longleftrightarrow> (\<forall>m\<in>set names. \<not> str_in m text)"
  by (auto simp: first_name_in_def find_None_iff set_sorted_longest_first)


text \<open>
  Claim C7. The handlers for opening an application, closing one and opening a folder
  try the configured names longest first and take the first that occurs in the text, so
  the chosen name occurs in the text and no configured name that occurs in it is longer;
  when no configured name occurs, the handler returns None and the router goes on with
  the next test.
\<close>

theorem longest_match_first:
  "(case first_name_in names text of
      None \<Rightarrow> (\<forall>m\<in>set names. \<not> str_in m text)
    | Some n \<Rightarrow> n \<in> set names \<and> str_in n text
                \<and> (\<forall>m\<in>set names. str_in m text \<longrightarrow> length m \<le> length n))
   \<and> handle_open e text = map_option (open_app e) (first_name_in (map fst APP_COMMANDS) text)
   \<and> handle_close e text = map_option (close_app e) (first_name_in (map fst PROCESS_NAMES) text)
   \<and> handle_folder e text
       = map_option (open_folder e) (first_name_in (map fst FOLDER_COMMANDS) text)
   \<and> (handle_folder e text = None \<longrightarrow> route_folder e st text = route_open e st text)
   \<and> (handle_open e text = None \<longrightarrow> route_open e st text = route_close e st text)
   \<and> (handle_close e text = None \<longrightarrow> route_close e st text = route_reminders e st text)"
proof -
  have sel: "(case first_name_in names text of
      None \<Rightarrow> (\<forall>m\<in>set names. \<not> str_in m text)
    | Some n \<Rightarrow> n \<in> set names \<and> str_in n text
                \<and> (\<forall>m\<in>set names. str_in m text \<longrightarrow> length m \<le> length n))"
  proof (cases "first_name_in names text")
    case None
    then have "\<forall>m\<in>set names. \<not> str_in m text"
      by (simp add: first_name_in_None)
    with None show ?thesis by simp
  next
    case (Some n)
    then show ?thesis using first_name_in_Some[OF Some] by simp
  qed
  have ho: "handle_open e text = map_option (open_app e) (first_name_in (map fst APP_COMMANDS) text)"
    by (simp add: handle_open_def split: option.splits)
  have hc: "handle_close e text = map_option (close_app e) (first_name_in (map fst PROCESS_NAMES) text)"
    by (simp add: handle_close_def split: option.splits)
  have hf: "handle_folder e text
       = map_option (open_folder e) (first_name_in (map fst FOLDER_COMMANDS) text)"
    by (simp add: handle_folder_def split: option.splits)
  have rf: "handle_folder e text = None \<longrightarrow> route_folder e st text = route_open e st text"
    by (simp add: route_folder_def)
  have ro: "handle_open e text = None \<longrightarrow> route_open e st text = route_close e st text"
    by (simp add: route_open_def)
  have rc: "handle_close e text = None \<longrightarrow> route_close e st text = route_reminders e st text"
    by (simp add: route_close_def)
  from sel ho hc hf rf ro rc show ?thesis by blast
qed


theorem longest_match_first_witness:
  "first_name_in [''code'', ''visual studio code''] ''open visual studio code''
     = Some ''visual studio code''
   \<and> str_in ''code'' ''open visual studio code''
   \<and> length ''code'' \<le> length ''visual studio code''
   \<and> handle_open env0 ''open the pod bay doors'' = None
   \<and> route_open env0 init_db ''open the pod bay doors''
       = route_close env0 init_db ''open the pod bay doors''"
proof -
  have a: "first_name_in [''code'', ''visual studio code''] ''open visual studio code''
             = Some ''visual studio code''"
    by code_simp
  have b: "str_in ''code'' ''open visual studio code''"
    by code_simp
  have c: "handle_open env0 ''open the pod bay doors'' = None"
    by code_simp
  have d: "length ''code'' \<le> length ''visual studio code''"
    using longest_match_first[of "[''code'', ''visual studio code'']" "''open visual studio code''"
            env0 init_db] a b
    by simp
  have e: "route_open env0 init_db ''open the pod bay doors''
             = route_close env0 init_db ''open the pod bay doors''"
    using longest_match_first[of "[]" "''open the pod bay doors''" env0 init_db] c
    by simp
  from a b c d e show ?thesis by blast
qed

section \<open>Properties of the router\<close>

text \<open>
  Claim C1. Whenever the trimmed, lower-cased text is not empty and matches a farewell
  phrase, \<open>process\<close> answers with the farewell and the exit flag set, whatever else the
  text matches and whatever the environment and the store are.
\<close>

theorem farewell_terminates:
  assumes "lower (strip text) \<noteq> []" and "found re_farewell (lower (strip text))"
  shows "process e st text = Inr ((''Take care, '' @ USER_NAME @ ''! Shutting down now.'', True), st)"
  using assms by (simp add: process_def Let_def)

theorem farewell_terminates_witness:
  "lower (strip ''Good morning, bye'') \<noteq> []
   \<and> found re_farewell (lower (strip ''Good morning, bye''))
   \<and> found re_greeting (lower (strip ''Good morning, bye''))
   \<and> process env0 init_db ''Good morning, bye''
       = Inr ((''Take care, Rihan! Shutting down now.'', True), init_db)"
proof -
  have t: "lower (strip ''Good morning, bye'') = ''good morning, bye''"
    by code_simp
  have f: "found re_farewell ''good morning, bye''"
    by code_simp
  have g: "found re_greeting ''good morning, bye''"
    by code_simp
  show ?thesis
    using farewell_terminates[of "''Good morning, bye''" env0 init_db] f g
    by (simp add: t USER_NAME_def)
qed

lemma process_reaches_reminders:
  assumes "reaches_reminders e (lower (strip text))"
  shows "process e st text = route_reminders e st (lower (strip text))"
proof -
  let ?t = "lower (strip text)"
  note r = assms[unfolded reaches_reminders_def]
  have f: "route_folder e st ?t = route_open e st ?t"
    using r by (auto simp: route_folder_def truthy_def split: option.splits)
  have o: "route_open e st ?t = route_close e st ?t"
    using r by (auto simp: route_open_def truthy_def split: option.splits)
  have c: "route_close e st ?t = route_reminders e st ?t"
    using r by (auto simp: route_close_def truthy_def split: option.splits)
  have "process e st text = route_folder e st ?t"
    using r by (simp add: process_def Let_def)
  then show ?thesis using f o c by simp
qed

lemma handle_remind_no_task:
  "re_search task_rx t = None \<Longrightarrow>
   handle_remind e st t = Inr (''What should I remind you about, and at what time?'', st)"
  by (simp add: handle_remind_def)

lemma handle_remind_no_time:
  assumes "re_search task_rx t = Some m" and "re_search time_rx t = None"
  shows "\<exists>g. group m 1 = Some g \<and>
     handle_remind e st t =
       Inr (''When should I remind you to '' @ quoted (strip g)
              @ ''? Please say a time like 'at 8 pm'.'', st)"
proof -
  from search_binds[OF binds_task_rx assms(1)] obtain g where g: "group m 1 = Some g" by blast
  then show ?thesis using assms by (simp add: handle_remind_def Let_def)
qed

lemma handle_remind_changes:
  assumes "handle_remind e st t = Inr (r, st')" and "st' \<noteq> st"
  shows "re_search task_rx t \<noteq> None \<and> re_search time_rx t \<noteq> None"
  using assms
  by (auto simp: handle_remind_def Let_def split: option.splits sum.splits if_splits)

text \<open>
  Claim C9. For a text that the router passes to the reminder handler: when the task
  phrase does not parse, the reply is a question for task and time; when the task parses
  and the time does not, the reply is a different question for the time; in both cases
  the exit flag is False and the store is unchanged. The store changes only when both
  the task and the time parse.
\<close>

theorem reminder_needs_task_and_time:
  assumes "t = lower (strip text)" and "reaches_reminders e t" and "found re_remind t"
  shows "(re_search task_rx t = None \<longrightarrow>
            process e st text
              = Inr ((''What should I remind you about, and at what time?'', False), st))
       \<and> (\<forall>m. re_search task_rx t = Some m \<and> re_search time_rx t = None \<longrightarrow>
            (\<exists>g. group m 1 = Some g
                \<and> process e st text
                    = Inr ((''When should I remind you to '' @ quoted (strip g)
                              @ ''? Please say a time like 'at 8 pm'.'', False), st)
                \<and> ''When should I remind you to '' @ quoted (strip g)
                      @ ''? Please say a time like 'at 8 pm'.''
                    \<noteq> ''What should I remind you about, and at what time?''))
       \<and> (\<forall>r b st'. process e st text = Inr ((r, b), st') \<and> st' \<noteq> st \<longrightarrow>
            re_search task_rx t \<noteq> None \<and> re_search time_rx t \<noteq> None)"
proof -
  have p: "process e st text =
     (case handle_remind e st t of Inl x \<Rightarrow> Inl x | Inr (r, st') \<Rightarrow> reply r st')"
    using process_reaches_reminders[of e "text" st] assms
    by (simp add: route_reminders_def)
  have 1: "re_search task_rx t = None \<longrightarrow>
            process e st text
              = Inr ((''What should I remind you about, and at what time?'', False), st)"
    by (simp add: p handle_remind_no_task reply_def)
  have 2: "\<exists>g. group m 1 = Some g
                \<and> process e st text
                    = Inr ((''When should I remind you to '' @ quoted (strip g)
                              @ ''? Please say a time like 'at 8 pm'.'', False), st)
                \<and> ''When should I remind you to '' @ quoted (strip g)
                      @ ''? Please say a time like 'at 8 pm'.''
                    \<noteq> ''What should I remind you about, and at what time?''"
    if "re_search task_rx t = Some m" "re_search time_rx t = None" for m
  proof -
    from handle_remind_no_time[OF that, of e st] obtain g where
      g: "group m 1 = Some g"
         "handle_remind e st t = Inr (''When should I remind you to '' @ quoted (strip g)
              @ ''? Please say a time like 'at 8 pm'.'', st)"
      by blast
    show ?thesis using g by (simp add: p reply_def)
  qed
  have 3: "re_search task_rx t \<noteq> None \<and> re_search time_rx t \<noteq> None"
    if "process e st text = Inr ((r, b), st')" "st' \<noteq> st" for r b st'
  proof -
    from that(1) have "handle_remind e st t = Inr (r, st')"
      by (auto simp: p reply_def split: sum.splits prod.splits)
    then show ?thesis using that(2) by (rule handle_remind_changes)
  qed
  from 1 2 3 show ?thesis by blast
qed

theorem reminder_needs_task_and_time_witness:
  "reaches_reminders env0 (lower (strip ''Remind me'')) \<and> found re_remind (lower (strip ''Remind me''))
   \<and> re_search task_rx (lower (strip ''Remind me'')) = None
   \<and> process env0 init_db ''Remind me''
       = Inr ((''What should I remind you about, and at what time?'', False), init_db)
   \<and> reaches_reminders env0 (lower (strip ''Remind me to call mom''))
   \<and> found re_remind (lower (strip ''Remind me to call mom''))
   \<and> re_search task_rx (lower (strip ''Remind me to call mom'')) \<noteq> None
   \<and> re_search time_rx (lower (strip ''Remind me to call mom'')) = None
   \<and> process env0 init_db ''Remind me to call mom''
       = Inr ((''When should I remind you to '' @ quoted ''call mom''
                 @ ''? Please say a time like 'at 8 pm'.'', False), init_db)"
proof -
  have t1: "lower (strip ''Remind me'') = ''remind me''"
    by code_simp
  have a1: "reaches_reminders env0 ''remind me''"
    by code_simp
  have b1: "found re_remind ''remind me''"
    by code_simp
  have c1: "re_search task_rx ''remind me'' = None"
    by code_simp
  have r1: "process env0 init_db ''Remind me''
       = Inr ((''What should I remind you about, and at what time?'', False), init_db)"
    using reminder_needs_task_and_time[OF t1[symmetric] a1 b1, of init_db] c1 by blast
  have t2: "lower (strip ''Remind me to call mom'') = ''remind me to call mom''"
    by code_simp
  have a2: "reaches_reminders env0 ''remind me to call mom''"
    by code_simp
  have b2: "found re_remind ''remind me to call mom''"
    by code_simp
  have c2: "re_search task_rx ''remind me to call mom''
              = Some (Some CHR ''m'', [], [(1, ''call mom'')])"
    by code_simp
  have d2: "re_search time_rx ''remind me to call mom'' = None"
    by code_simp
  have s2: "strip ''call mom'' = ''call mom''"
    by code_simp
  from reminder_needs_task_and_time[OF t2[symmetric] a2 b2, of init_db] c2 d2
  obtain g where g: "group (Some CHR ''m'', [], [(1, ''call mom'')]) 1 = Some g"
    "process env0 init_db ''Remind me to call mom''
       = Inr ((''When should I remind you to '' @ quoted (strip g)
                 @ ''? Please say a time like 'at 8 pm'.'', False), init_db)"
    by blast
  from g(1) have "g = ''call mom''"
    by (simp add: group_def m_groups_def)
  with g(2) s2 have r2: "process env0 init_db ''Remind me to call mom''
       = Inr ((''When should I remind you to '' @ quoted ''call mom''
                 @ ''? Please say a time like 'at 8 pm'.'', False), init_db)"
    by simp
  show ?thesis
    using a1 b1 c1 r1 a2 b2 c2 d2 r2 by (simp add: t1 t2)
qed

lemma hour_expr:
  "(if truthy mer \<and> map_option lower mer = Some ''pm'' \<and> h < 12 then h + 12
    else if truthy mer \<and> map_option lower mer = Some ''am'' \<and> h = 12 then 0
    else h) = normal_hour h mer"
  by (cases mer) (auto simp: normal_hour_def truthy_def lower_def)

lemma minute_expr:
  "(case x of None \<Rightarrow> 0 | Some m \<Rightarrow> if m = [] then 0 else int_of_digits m)
     = (case x of None \<Rightarrow> 0 | Some m \<Rightarrow> int_of_digits m)"
  by (auto simp: int_of_digits_def split: option.splits)

lemma int_of_digits_Nil: "int_of_digits [] = 0"
  by (simp add: int_of_digits_def)

lemma handle_remind_changed:
  assumes "handle_remind e st text = Inr (resp, st')" and "st' \<noteq> st"
  shows "\<exists>tm g tp h base d.
      re_search task_rx text = Some tm \<and> group tm 1 = Some g
    \<and> re_search time_rx text = Some tp \<and> group tp 1 = Some h
    \<and> replace_time (clock e) (normal_hour (int_of_digits h) (group tp 3))
          (case group tp 2 of None \<Rightarrow> 0 | Some m \<Rightarrow> int_of_digits m) = Inr base
    \<and> (if dt_le base (clock e) then add_one_day base else Inr base) = Inr d
    \<and> st' = add_reminder st (strip g) d"
proof -
  from assms obtain tm where tm: "re_search task_rx text = Some tm"
    by (auto simp: handle_remind_def Let_def split: option.splits)
  from assms tm obtain g where g: "group tm 1 = Some g"
    by (auto simp: handle_remind_def Let_def split: option.splits)
  from assms tm g obtain tp where tp: "re_search time_rx text = Some tp"
    by (auto simp: handle_remind_def Let_def split: option.splits)
  from assms tm g tp obtain h where h: "group tp 1 = Some h"
    by (auto simp: handle_remind_def Let_def split: option.splits)
  let ?hour = "normal_hour (int_of_digits h) (group tp 3)"
  let ?minute = "case group tp 2 of None \<Rightarrow> 0 | Some m \<Rightarrow> int_of_digits m"
  have eq: "handle_remind e st text =
    (case replace_time (clock e) ?hour ?minute of
       Inl x \<Rightarrow> Inl x
     | Inr remind_dt \<Rightarrow>
        (case (if dt_le remind_dt (clock e) then add_one_day remind_dt else Inr remind_dt) of
           Inl x \<Rightarrow> Inl x
         | Inr remind_dt' \<Rightarrow>
            Inr (''Got it! I'll remind you to '' @ quoted (strip g) @ '' at ''
                   @ lib_strftime e ''%I:%M %p'' remind_dt' @ ''.'',
                 add_reminder st (strip g) remind_dt')))"
    unfolding handle_remind_def Let_def hour_expr minute_expr
    using tm g tp h by simp
  from assms(1) obtain base where base: "replace_time (clock e) ?hour ?minute = Inr base"
    unfolding eq by (cases "replace_time (clock e) ?hour ?minute") auto
  from assms(1) obtain d where d: "(if dt_le base (clock e) then add_one_day base else Inr base) = Inr d"
    unfolding eq base by (cases "if dt_le base (clock e) then add_one_day base else Inr base") auto
  from assms(1) have "st' = add_reminder st (strip g) d"
    unfolding eq base using d by simp
  with tm g tp h base d show ?thesis by blast
qed

lemma replace_time_Inr:
  assumes "valid_dt n" and "replace_time n h m = Inr base"
  shows "base = n\<lparr>dt_hour := h, dt_minute := m, dt_second := 0, dt_microsecond := 0\<rparr>
       \<and> valid_dt base"
  using assms by (auto simp: replace_time_def valid_dt_def split: if_splits)

text \<open>
  Claim C2. Whenever the reminder handler stores a reminder (the task phrase and the time
  expression parse and the time of day is valid), the stored \<open>remind_at\<close> is the ISO
  text of a datetime strictly later than the clock of the call: its hour is the parsed
  hour with pm adding 12 below 12 and am turning 12 into 0, its minute the parsed minute
  (0 when absent), seconds and microseconds 0; when that time of day on the current date
  is not after the clock, it is moved by exactly one calendar day.
\<close>

theorem remind_strictly_future:
  assumes "valid_dt (clock e)" and "handle_remind e st text = Inr (resp, st')" and "st' \<noteq> st"
  shows "\<exists>tp h tsk base d.
      re_search time_rx text = Some tp \<and> group tp 1 = Some h
    \<and> base = (clock e)\<lparr>dt_hour := normal_hour (int_of_digits h) (group tp 3),
                        dt_minute := (case group tp 2 of None \<Rightarrow> 0 | Some m \<Rightarrow> int_of_digits m),
                        dt_second := 0, dt_microsecond := 0\<rparr>
    \<and> valid_dt base
    \<and> (if dt_le base (clock e)
        then add_one_day base = Inr d \<and> toordinal d = toordinal base + 1
        else d = base)
    \<and> dt_hour d = dt_hour base \<and> dt_minute d = dt_minute base
    \<and> dt_second d = 0 \<and> dt_microsecond d = 0
    \<and> st' = add_reminder st tsk d
    \<and> remind_at (last (reminders st')) = isoformat d
    \<and> valid_dt d \<and> dt_less (clock e) d"
proof -
  from handle_remind_changed[OF assms(2,3)] obtain tm g tp h base d where
    tp: "re_search time_rx text = Some tp" "group tp 1 = Some h" and
    base: "replace_time (clock e) (normal_hour (int_of_digits h) (group tp 3))
          (case group tp 2 of None \<Rightarrow> 0 | Some m \<Rightarrow> int_of_digits m) = Inr base" and
    d: "(if dt_le base (clock e) then add_one_day base else Inr base) = Inr d" and
    st': "st' = add_reminder st (strip g) d"
    by blast
  from replace_time_Inr[OF assms(1) base] have
    b: "base = (clock e)\<lparr>dt_hour := normal_hour (int_of_digits h) (group tp 3),
                        dt_minute := (case group tp 2 of None \<Rightarrow> 0 | Some m \<Rightarrow> int_of_digits m),
                        dt_second := 0, dt_microsecond := 0\<rparr>"
    and vb: "valid_dt base" by blast+
  have date: "dt_year (clock e) = dt_year base" "dt_month (clock e) = dt_month base"
    "dt_day (clock e) = dt_day base" and sec: "dt_second base = 0" "dt_microsecond base = 0"
    by (simp_all add: b)
  have ra: "remind_at (last (reminders st')) = isoformat d"
    unfolding st' by (simp add: add_reminder_last)
  have main: "(if dt_le base (clock e)
        then add_one_day base = Inr d \<and> toordinal d = toordinal base + 1
        else d = base)
    \<and> dt_hour d = dt_hour base \<and> dt_minute d = dt_minute base
    \<and> dt_second d = 0 \<and> dt_microsecond d = 0 \<and> valid_dt d \<and> dt_less (clock e) d"
  proof (cases "dt_le base (clock e)")
    case True
    then have a: "add_one_day base = Inr d" using d by simp
    show ?thesis
      using True a toordinal_add_one_day[OF vb a] add_one_day_valid[OF vb a]
        add_one_day_time[OF a] add_one_day_later[OF a date] sec
      by simp
  next
    case False
    then have "d = base" using d by simp
    then show ?thesis using False vb sec by (simp add: not_dt_le)
  qed
  from tp b vb main st' ra show ?thesis by blast
qed

lemma valid_clock_env0: "valid_dt (clock env0)"
  by (simp add: valid_dt_def env0_def days_in_month_def)

lemma add_reminder_changes: "add_reminder st t d \<noteq> st"
proof
  assume "add_reminder st t d = st"
  then have "rem_seq (add_reminder st t d) = rem_seq st" by simp
  then show False by (simp add: add_reminder_def)
qed

theorem remind_strictly_future_witness:
  "valid_dt (clock env0)
   \<and> handle_remind env0 init_db ''remind me to call mom at 8 am''
       = Inr (''Got it! I'll remind you to '' @ quoted ''call mom'' @ '' at %I:%M %p.'',
              add_reminder init_db ''call mom'' feb1_0800)
   \<and> add_reminder init_db ''call mom'' feb1_0800 \<noteq> init_db
   \<and> remind_at (last (reminders (add_reminder init_db ''call mom'' feb1_0800)))
       = ''2026-02-01T08:00:00''
   \<and> (\<exists>d. remind_at (last (reminders (add_reminder init_db ''call mom'' feb1_0800)))
              = isoformat d
          \<and> dt_less (clock env0) d)"
proof -
  have h: "handle_remind env0 init_db ''remind me to call mom at 8 am''
       = Inr (''Got it! I'll remind you to '' @ quoted ''call mom'' @ '' at %I:%M %p.'',
              add_reminder init_db ''call mom'' feb1_0800)"
    by code_simp
  have ne: "add_reminder init_db ''call mom'' feb1_0800 \<noteq> init_db"
    by (rule add_reminder_changes)
  have iso: "remind_at (last (reminders (add_reminder init_db ''call mom'' feb1_0800)))
       = ''2026-02-01T08:00:00''"
    by code_simp
  from remind_strictly_future[OF valid_clock_env0 h ne] obtain d where
    "remind_at (last (reminders (add_reminder init_db ''call mom'' feb1_0800))) = isoformat d"
    "dt_less (clock env0) d"
    by blast
  then have ex: "\<exists>d. remind_at (last (reminders (add_reminder init_db ''call mom'' feb1_0800)))
              = isoformat d \<and> dt_less (clock env0) d"
    by blast
  from valid_clock_env0 h ne iso ex show ?thesis by blast
qed

text \<open>
  Claim C3 says that \<open>process\<close> returns normally for every text. It does not: a
  reminder whose hour is above 23 (or whose minute is above 59) passes both patterns of
  the reminder handler, and the construction of the datetime then raises ValueError,
  which nothing in \<open>process\<close> catches. The text below is such an input, for every
  environment and store.
\<close>

theorem process_raises_on_invalid_hour:
  "process e st ''remind me to call mom at 25'' = Inl ValueError"
  by code_simp

section \<open>Properties of the calculator\<close>









section \<open>Properties of the reminder thread\<close>

lemma deliver_due_log:
  "snd (deliver_due st log rs) =
     log @ concat (map (\<lambda>r. [Deliver (v_id r) (reminder_msg r), Marked (v_id r)]) rs)"
  by (induction rs arbitrary: st log) (simp_all add: Let_def)

lemma deliver_due_store:
  "fst (deliver_due st log rs) = foldl mark_notified st (map v_id rs)"
  by (induction rs arbitrary: st log) (simp_all add: Let_def)

lemma get_due_subseq: "subseq (get_due_reminders now st) (map view (reminders st))"
  by (simp add: get_due_reminders_def subseq_map)

text \<open>
  Claim C5 says that the due reminders of a cycle are returned, delivered and marked in
  ascending order of \<open>remind_at\<close>. The query for the due reminders has no ORDER BY: its
  rows come in the order of the table. Two reminders created by \<open>process\<close>, the first for
  the next morning and the second for the same day, are returned and delivered in the
  order of their creation, the later \<open>remind_at\<close> first.
\<close>

theorem due_order_counterexample:
  "process env_jan1 init_db ''remind me to call mom at 9''
     = Inr ((''Got it! I'll remind you to '' @ quoted ''call mom'' @ '' at %I:%M %p.'', False),
            store_one)
   \<and> process env_jan1 store_one ''remind me to stretch at 11''
     = Inr ((''Got it! I'll remind you to '' @ quoted ''stretch'' @ '' at %I:%M %p.'', False),
            store_two)
   \<and> map v_remind_at (get_due_reminders jan3_0000 store_two)
       = [''2026-01-02T09:00:00'', ''2026-01-01T11:00:00'']
   \<and> \<not> sorted (map (\<lambda>v. str_key (v_remind_at v)) (get_due_reminders jan3_0000 store_two))
   \<and> delivered (snd (poll_cycle jan3_0000 store_two [])) = [1, 2]"
proof -
  have a: "process env_jan1 init_db ''remind me to call mom at 9''
     = Inr ((''Got it! I'll remind you to '' @ quoted ''call mom'' @ '' at %I:%M %p.'', False),
            store_one)"
    by code_simp
  have b: "process env_jan1 store_one ''remind me to stretch at 11''
     = Inr ((''Got it! I'll remind you to '' @ quoted ''stretch'' @ '' at %I:%M %p.'', False),
            store_two)"
    by code_simp
  have c: "map v_remind_at (get_due_reminders jan3_0000 store_two)
       = [''2026-01-02T09:00:00'', ''2026-01-01T11:00:00'']"
    by code_simp
  have d: "\<not> sorted (map (\<lambda>v. str_key (v_remind_at v)) (get_due_reminders jan3_0000 store_two))"
    by code_simp
  have e: "delivered (snd (poll_cycle jan3_0000 store_two [])) = [1, 2]"
    by code_simp
  from a b c d e show ?thesis by blast
qed


text \<open>
  Claim C5, amended. In every cycle the thread delivers and then marks the due
  reminders one by one in the order in which the query returns them, and that order is
  the order of the rows in the table.
\<close>

theorem poll_cycle_store_order:
  "snd (poll_cycle now st log) =
     log @ concat (map (\<lambda>r. [Deliver (v_id r) (reminder_msg r), Marked (v_id r)])
                     (get_due_reminders now st))
   \<and> fst (poll_cycle now st log) = foldl mark_notified st (map v_id (get_due_reminders now st))
   \<and> subseq (get_due_reminders now st) (map view (reminders st))"
  using deliver_due_log[of st log "get_due_reminders now st"]
        deliver_due_store[of st log "get_due_reminders now st"]
        get_due_subseq[of now st]
  by (simp add: poll_cycle_def)

section \<open>Properties of threads sharing the store\<close>

lemma delivered_append: "delivered (xs @ ys) = delivered xs @ delivered ys"
  by (induction xs rule: delivered.induct) simp_all

lemma map_rem_id_upd:
  "map rem_id (map (\<lambda>r. if rem_id r = i then r\<lparr>notified := 1\<rparr> else r) rs) = map rem_id rs"
  by (induction rs) simp_all

lemma map_rem_id_mark:
  "map rem_id (reminders (mark_notified st i)) = map rem_id (reminders st)"
  by (simp add: mark_notified_def map_rem_id_upd)

lemma ids_map: "ids st = set (map rem_id (reminders st))"
  by (simp add: ids_def)

lemma ids_mark: "ids (mark_notified st i) = ids st"
  by (simp only: ids_map map_rem_id_mark)

lemma ids_ok_alt:
  "ids_ok st = (distinct (map rem_id (reminders st)) \<and> (\<forall>i\<in>ids st. i \<le> rem_seq st))"
  by (auto simp add: ids_ok_def ids_def list_all_iff)

lemma rem_seq_mark: "rem_seq (mark_notified st i) = rem_seq st"
  by (simp add: mark_notified_def)

lemma ids_ok_mark: "ids_ok st \<Longrightarrow> ids_ok (mark_notified st i)"
  by (simp add: ids_ok_alt map_rem_id_mark ids_mark rem_seq_mark)

lemma pending_mark: "pending (mark_notified st i) \<subseteq> pending st - {i}"
proof
  fix x
  assume "x \<in> pending (mark_notified st i)"
  then obtain r' where r': "r' \<in> set (reminders (mark_notified st i))" "notified r' = 0"
      "x = rem_id r'"
    unfolding pending_def by blast
  from r'(1) obtain r where r: "r \<in> set (reminders st)"
      "r' = (if rem_id r = i then r\<lparr>notified := 1\<rparr> else r)"
    unfolding mark_notified_def by auto
  show "x \<in> pending st - {i}"
  proof (cases "rem_id r = i")
    case True
    with r(2) have "notified r' = 1" by simp
    with r'(2) show ?thesis by simp
  next
    case False
    with r(2) have "r' = r" by simp
    with r r' False have "r \<in> {r \<in> set (reminders st). notified r = 0}" "x = rem_id r" "x \<noteq> i"
      by simp_all
    then show ?thesis unfolding pending_def by blast
  qed
qed

lemma pending_subset_ids: "pending st \<subseteq> ids st"
  by (auto simp add: pending_def ids_def)

lemma fresh_id: "ids_ok st \<Longrightarrow> rem_seq st + 1 \<notin> ids st"
  by (auto simp add: ids_ok_def ids_def list_all_iff)

lemma ids_add: "ids (add_reminder st t d) = insert (rem_seq st + 1) (ids st)"
  by (auto simp add: ids_def add_reminder_def Let_def)

lemma pending_add: "pending (add_reminder st t d) \<subseteq> insert (rem_seq st + 1) (pending st)"
  by (auto simp add: pending_def add_reminder_def Let_def)

lemma ids_ok_add: "ids_ok st \<Longrightarrow> ids_ok (add_reminder st t d)"
  by (fastforce simp add: ids_ok_def add_reminder_def Let_def list_all_iff)

lemma due_pending: "v_id ` set (get_due_reminders now st) \<subseteq> pending st"
  by (auto simp add: get_due_reminders_def pending_def view_def Let_def)

lemma map_v_id_view: "map v_id (map view rs) = map rem_id rs"
  by (induction rs) (simp_all add: view_def)

lemma due_distinct: "ids_ok st \<Longrightarrow> distinct (map v_id (get_due_reminders now st))"
  by (simp add: get_due_reminders_def Let_def map_v_id_view ids_ok_def distinct_map_filter
      del: map_map)

lemma inv_fetch:
  assumes "single_inv (st, log, ps)" "i < length ps" "ph (ps ! i) = AtFetch"
  shows "single_inv (st, log,
           ps[i := \<lparr>ph = (if get_due_reminders now st = [] then AtFetch else AtCallback),
                    due = get_due_reminders now st\<rparr>])"
proof -
  from assms have i: "i = 0" and l: "length ps = 1" by (auto simp add: single_inv_def)
  from assms i have d: "set (delivered log) \<inter> pending st = {}"
    by (auto simp add: single_inv_def in_hand_def)
  with due_pending[of now st] have e: "set (delivered log) \<inter> v_id ` set (get_due_reminders now st) = {}"
    by blast
  from due_pending[of now st] pending_subset_ids[of st]
  have f: "v_id ` set (get_due_reminders now st) \<subseteq> ids st" by blast
  from assms have ok: "ids_ok st" by (simp add: single_inv_def)
  from assms l i d e f due_distinct[OF ok, of now] show ?thesis
    by (simp add: single_inv_def in_hand_def todo_def)
qed

lemma inv_callback:
  assumes "single_inv (st, log, ps)" "i < length ps" "ph (ps ! i) = AtCallback"
    "due (ps ! i) = r # rs"
  shows "single_inv (st, log @ [Deliver (v_id r) (reminder_msg r)],
           ps[i := \<lparr>ph = AtMark, due = r # rs\<rparr>])"
proof -
  from assms have i: "i = 0" and l: "length ps = 1" by (auto simp add: single_inv_def)
  from assms i have a: "v_id r \<notin> set (delivered log)" "set (delivered log) \<inter> v_id ` set rs = {}"
    by (auto simp add: single_inv_def todo_def)
  from assms i have b: "v_id r \<in> ids st" "v_id r \<notin> v_id ` set rs" "distinct (map v_id rs)"
    "v_id ` set rs \<subseteq> ids st"
    by (auto simp add: single_inv_def)
  from assms i have c: "set (delivered log) \<inter> pending st = {}"
    by (auto simp add: single_inv_def in_hand_def)
  from assms have d: "ids_ok st" "distinct (delivered log)" "set (delivered log) \<subseteq> ids st"
    by (auto simp add: single_inv_def)
  from a b c d l i show ?thesis
    by (auto simp add: single_inv_def in_hand_def todo_def delivered_append)
qed

lemma inv_mark:
  assumes "single_inv (st, log, ps)" "i < length ps" "ph (ps ! i) = AtMark"
    "due (ps ! i) = r # rs"
  shows "single_inv (mark_notified st (v_id r), log @ [Marked (v_id r)],
           ps[i := \<lparr>ph = (if rs = [] then AtFetch else AtCallback), due = rs\<rparr>])"
proof -
  from assms have i: "i = 0" and l: "length ps = 1" by (auto simp add: single_inv_def)
  from assms i have a: "set (delivered log) \<inter> pending st \<subseteq> {v_id r}"
    "set (delivered log) \<inter> v_id ` set rs = {}"
    by (auto simp add: single_inv_def in_hand_def todo_def)
  with pending_mark[of st "v_id r"]
  have c: "set (delivered log) \<inter> pending (mark_notified st (v_id r)) = {}" by blast
  from assms i have b: "distinct (map v_id rs)" "v_id ` set rs \<subseteq> ids st"
    by (auto simp add: single_inv_def)
  from assms have d: "ids_ok st" "distinct (delivered log)" "set (delivered log) \<subseteq> ids st"
    by (auto simp add: single_inv_def)
  from a b c d l i ids_ok_mark[of st "v_id r"] show ?thesis
    by (simp add: single_inv_def in_hand_def todo_def delivered_append ids_mark)
qed

lemma inv_add:
  assumes "single_inv (st, log, ps)"
  shows "single_inv (add_reminder st t d, log, ps)"
proof -
  from assms have ok: "ids_ok st" and sub: "set (delivered log) \<subseteq> ids st"
    by (auto simp add: single_inv_def)
  from fresh_id[OF ok] sub have "rem_seq st + 1 \<notin> set (delivered log)" by blast
  with pending_add[of st t d]
  have "set (delivered log) \<inter> pending (add_reminder st t d) \<subseteq> set (delivered log) \<inter> pending st"
    by blast
  with assms ids_ok_add[OF ok, of t d] show ?thesis
    by (auto simp add: single_inv_def ids_add)
qed

lemma inv_save: "single_inv (st, log, ps) \<Longrightarrow> single_inv (save_memory now st c, log, ps)"
  by (simp add: single_inv_def save_memory_def ids_ok_def ids_def pending_def)

lemma inv_clear: "single_inv (st, log, ps) \<Longrightarrow> single_inv (clear_memories st, log, ps)"
  by (simp add: single_inv_def clear_memories_def ids_ok_def ids_def pending_def)

lemma step_inv: "step s s' \<Longrightarrow> single_inv s \<Longrightarrow> single_inv s'"
proof (induction rule: step.induct)
  case (fetch i ps d now st log)
  then show ?case using inv_fetch[of st log ps i now] by simp
next
  case (callback i ps r rs st log)
  then show ?case using inv_callback[of st log ps i r rs] by simp
next
  case (mark i ps r rs st log)
  then show ?case using inv_mark[of st log ps i r rs] by simp
next
  case (session_add_reminder st log ps t remind_dt)
  then show ?case by (rule inv_add)
next
  case (session_save_memory st log ps now c)
  then show ?case by (rule inv_save)
next
  case (session_clear_memories st log ps)
  then show ?case by (rule inv_clear)
qed

lemma reachable_inv: "reachable s s' \<Longrightarrow> single_inv s \<Longrightarrow> single_inv s'"
  unfolding reachable_def
  by (induction rule: rtranclp_induct) (auto intro: step_inv)

lemma inv_init: "ids_ok st \<Longrightarrow> single_inv (st, [], [idle])"
  by (simp add: single_inv_def idle_def in_hand_def todo_def)

lemma due_store_two: "get_due_reminders jan3_0000 store_two = [call_mom_view, stretch_view]"
  by code_simp

lemma ids_ok_store_two: "ids_ok store_two"
  by code_simp

lemma due_after_marks:
  "get_due_reminders jan3_0000 (mark_notified (mark_notified store_two 1) 2) = []"
  by code_simp

lemma reachable_step: "reachable s t \<Longrightarrow> step t u \<Longrightarrow> reachable s u"
  by (simp add: reachable_def)

lemma reachable_refl: "reachable s s"
  by (simp add: reachable_def)

lemma step_fetch_at:
  assumes "i < length ps" "ph (ps ! i) = AtFetch" "get_due_reminders now st = d"
    "ps' = ps[i := \<lparr>ph = (if d = [] then AtFetch else AtCallback), due = d\<rparr>]"
  shows "step (st, log, ps) (st, log, ps')"
  using step.fetch[of i ps d now st log] assms by blast

lemma step_callback_at:
  assumes "i < length ps" "ph (ps ! i) = AtCallback" "due (ps ! i) = r # rs"
    "log' = log @ [Deliver (v_id r) (reminder_msg r)]"
    "ps' = ps[i := \<lparr>ph = AtMark, due = r # rs\<rparr>]"
  shows "step (st, log, ps) (st, log', ps')"
  using step.callback[of i ps r rs st log] assms by blast

lemma step_mark_at:
  assumes "i < length ps" "ph (ps ! i) = AtMark" "due (ps ! i) = r # rs"
    "st' = mark_notified st (v_id r)"
    "log' = log @ [Marked (v_id r)]"
    "ps' = ps[i := \<lparr>ph = (if rs = [] then AtFetch else AtCallback), due = rs\<rparr>]"
  shows "step (st, log, ps) (st', log', ps')"
  using step.mark[of i ps r rs st log] assms by blast

lemma v_id_call_mom: "v_id call_mom_view = 1"
  by (simp add: call_mom_view_def)

lemma v_id_stretch: "v_id stretch_view = 2"
  by (simp add: stretch_view_def)

text \<open>
  Claim C4 says that every reminder is delivered at most once because the reminder is
  marked notified atomically with its delivery, so that two threads polling the store
  cannot both read the same due reminder and both deliver it without a mark in between.
  The thread calls the callback and then \<open>mark_notified\<close> as two separate steps, and the
  lock of the store is held only within each call of the store. Two threads on the store
  with the reminders of \<open>store_two\<close> can both fetch the two due reminders and both
  deliver reminder 1 before either marks it: the store is unchanged and the log holds
  two deliveries of reminder 1 with no mark between them.
\<close>

theorem two_threads_deliver_twice:
  "ids_ok store_two
   \<and> reachable (store_two, [], [idle, idle])
        (store_two,
         [Deliver 1 (reminder_msg call_mom_view), Deliver 1 (reminder_msg call_mom_view)],
         [both_due AtMark, both_due AtMark])
   \<and> \<not> distinct (delivered
         [Deliver 1 (reminder_msg call_mom_view), Deliver 1 (reminder_msg call_mom_view)])"
proof -
  have s1: "step (store_two, [], [idle, idle]) (store_two, [], [both_due AtCallback, idle])"
    by (rule step_fetch_at[where i = 0 and now = jan3_0000 and d = "[call_mom_view, stretch_view]"])
    (simp_all add: idle_def both_due_def due_store_two)
  have s2: "step (store_two, [], [both_due AtCallback, idle])
      (store_two, [], [both_due AtCallback, both_due AtCallback])"
    by (rule step_fetch_at[where i = 1 and now = jan3_0000 and d = "[call_mom_view, stretch_view]"])
    (simp_all add: idle_def both_due_def due_store_two)
  have s3: "step (store_two, [], [both_due AtCallback, both_due AtCallback])
      (store_two, [Deliver 1 (reminder_msg call_mom_view)],
      [both_due AtMark, both_due AtCallback])"
    by (rule step_callback_at[where i = 0 and r = call_mom_view and rs = "[stretch_view]"])
    (simp_all add: both_due_def v_id_call_mom)
  have s4: "step (store_two, [Deliver 1 (reminder_msg call_mom_view)],
      [both_due AtMark, both_due AtCallback])
      (store_two,
      [Deliver 1 (reminder_msg call_mom_view), Deliver 1 (reminder_msg call_mom_view)],
      [both_due AtMark, both_due AtMark])"
    by (rule step_callback_at[where i = 1 and r = call_mom_view and rs = "[stretch_view]"])
    (simp_all add: both_due_def v_id_call_mom)
  from reachable_step[OF reachable_step[OF reachable_step[OF reachable_step[OF
        reachable_refl s1] s2] s3] s4]
  show ?thesis by (simp add: ids_ok_store_two)
qed

text \<open>
  Claim C4, amended. With one reminder thread, which is what \<open>initialize\<close> starts, every
  reminder is delivered at most once in a run, whatever the session adds to the store
  in between and whatever the clock shows at each query: the thread marks a reminder
  right after its callback, in a separate call of the store, and a marked reminder is
  not returned as due again. The ids of the table the run starts from are distinct and
  not above the AUTOINCREMENT counter.
\<close>

theorem single_thread_at_most_once:
  assumes "ids_ok st0" and "reachable (st0, [], [idle]) (st, log, ps)"
  shows "distinct (delivered log)"
  using reachable_inv[OF assms(2) inv_init[OF assms(1)]]
  by (simp add: single_inv_def)

theorem single_thread_at_most_once_witness:
  "ids_ok store_two
   \<and> reachable (store_two, [], [idle])
        (mark_notified (mark_notified store_two 1) 2,
         [Deliver 1 (reminder_msg call_mom_view), Marked 1,
          Deliver 2 (reminder_msg stretch_view), Marked 2],
         [idle])
   \<and> distinct (delivered
         [Deliver 1 (reminder_msg call_mom_view), Marked 1,
          Deliver 2 (reminder_msg stretch_view), Marked 2])"
proof -
  have s1: "step (store_two, [], [idle]) (store_two, [], [both_due AtCallback])"
    by (rule step_fetch_at[where i = 0 and now = jan3_0000 and d = "[call_mom_view, stretch_view]"])
    (simp_all add: idle_def both_due_def due_store_two)
  have s2: "step (store_two, [], [both_due AtCallback])
      (store_two, [Deliver 1 (reminder_msg call_mom_view)], [both_due AtMark])"
    by (rule step_callback_at[where i = 0 and r = call_mom_view and rs = "[stretch_view]"])
    (simp_all add: both_due_def v_id_call_mom)
  have s3: "step (store_two, [Deliver 1 (reminder_msg call_mom_view)], [both_due AtMark])
      (mark_notified store_two 1, [Deliver 1 (reminder_msg call_mom_view), Marked 1],
      [stretch_due AtCallback])"
    by (rule step_mark_at[where i = 0 and r = call_mom_view and rs = "[stretch_view]"])
    (simp_all add: both_due_def stretch_due_def v_id_call_mom)
  have s4: "step (mark_notified store_two 1, [Deliver 1 (reminder_msg call_mom_view), Marked 1],
      [stretch_due AtCallback])
      (mark_notified store_two 1,
      [Deliver 1 (reminder_msg call_mom_view), Marked 1,
      Deliver 2 (reminder_msg stretch_view)],
      [stretch_due AtMark])"
    by (rule step_callback_at[where i = 0 and r = stretch_view and rs = "[]"])
    (simp_all add: stretch_due_def v_id_stretch)
  have s5: "step (mark_notified store_two 1,
      [Deliver 1 (reminder_msg call_mom_view), Marked 1,
      Deliver 2 (reminder_msg stretch_view)],
      [stretch_due AtMark])
      (mark_notified (mark_notified store_two 1) 2,
      [Deliver 1 (reminder_msg call_mom_view), Marked 1,
      Deliver 2 (reminder_msg stretch_view), Marked 2],
      [idle])"
    by (rule step_mark_at[where i = 0 and r = stretch_view and rs = "[]"])
    (simp_all add: stretch_due_def idle_def v_id_stretch)
  have s6: "step (mark_notified (mark_notified store_two 1) 2,
                  [Deliver 1 (reminder_msg call_mom_view), Marked 1,
                   Deliver 2 (reminder_msg stretch_view), Marked 2],
                  [idle])
                 (mark_notified (mark_notified store_two 1) 2,
                  [Deliver 1 (reminder_msg call_mom_view), Marked 1,
                   Deliver 2 (reminder_msg stretch_view), Marked 2],
                  [idle])"
    by (rule step_fetch_at[where i = 0 and now = jan3_0000 and d = "[]"])
       (simp_all add: idle_def due_after_marks)
  have r: "reachable (store_two, [], [idle])
        (mark_notified (mark_notified store_two 1) 2,
         [Deliver 1 (reminder_msg call_mom_view), Marked 1,
          Deliver 2 (reminder_msg stretch_view), Marked 2],
         [idle])"
    using reachable_step[OF reachable_step[OF reachable_step[OF reachable_step[OF
          reachable_step[OF reachable_step[OF reachable_refl s1] s2] s3] s4] s5] s6] .
  from single_thread_at_most_once[OF ids_ok_store_two r] ids_ok_store_two r
  show ?thesis by blast
qed


end
